theory Spec2Isabelle
  imports Complex_Main "HOL-Library.Multiset"
begin

section \<open>The content graph\<close>

text \<open>
  \<^verbatim>\<open>gatsby-node.js\<close> receives four lists of edges \<^verbatim>\<open>{ node }\<close> from the GraphQL layer.
  A node is a JavaScript object; the planner reads the fields below and writes exactly
  one of them, \<^verbatim>\<open>collectionPath\<close>, in place (\<^verbatim>\<open>getCollection\<close>). An absent or
  \<^verbatim>\<open>null\<close> field is \<open>None\<close>.

  Post edges are shared: \<^verbatim>\<open>Array.prototype.filter\<close> copies references, so the lists
  \<^verbatim>\<open>data.posts\<close>, \<^verbatim>\<open>primary.posts\<close> and \<^verbatim>\<open>residual.posts\<close> alias the same objects.
  Posts are therefore addresses into a store, and a list of posts is a list of addresses.
  Pages, tags and authors are never written and are plain values.
\<close>

type_synonym addr = nat

record ghost_node =
  node_id :: string
  slug :: string
  url :: "string option"
  primary_tag :: "string option"
  postCount :: "nat option"
  collectionPath :: "string option"

type_synonym store = "addr \<Rightarrow> ghost_node"

text \<open>
  The planner's mutable state: the store, and the trace of the assignments
  \<^verbatim>\<open>node.collectionPath = v\<close> in the order they are executed (address and value).
  The trace is never read by the planner.
\<close>

record pstate =
  heap :: store
  writes :: "(addr \<times> string) list"

definition set_collectionPath :: "string \<Rightarrow> addr \<Rightarrow> pstate \<Rightarrow> pstate" where
  "set_collectionPath v a st =
     st\<lparr>heap := (heap st)(a := (heap st a)\<lparr>collectionPath := Some v\<rparr>),
        writes := writes st @ [(a, v)]\<rparr>"

section \<open>Routes\<close>

datatype template = PageTemplate | PostTemplate | IndexTemplate | TagTemplate | AuthorTemplate

text \<open>
  The object \<^verbatim>\<open>paths\<close> built by \<^verbatim>\<open>getCollectionPaths\<close>: a key is present once it has
  been assigned, and its value is the post's \<^verbatim>\<open>collectionPath\<close>, which may be undefined.
\<close>

type_synonym path_table = "string \<rightharpoonup> string option"

record post_context =
  pc_slug :: string
  pc_prev :: string
  pc_next :: string
  pc_tag :: string
  pc_limit :: nat
  pc_skip :: nat
  primaryTagCount :: nat
  pc_collectionPaths :: path_table

record index_context =
  ic_collectionPath :: string
  ic_iScrollEnabled :: bool
  ic_postIds :: "string list"
  ic_cursor :: nat

record taxonomy_context =
  tc_slug :: string
  tc_collectionPaths :: path_table
  tc_iScrollEnabled :: bool
  tc_postIds :: "string list"
  tc_cursor :: nat

datatype passthrough = IndexPass index_context | TaxonomyPass taxonomy_context

record pagination_context =
  pageNumber :: nat
  totalItems :: nat
  itemsPerPage :: nat
  cursor :: nat

datatype route_context =
    PageContext string
  | PostContext post_context
  | PaginatedContext passthrough pagination_context

record route =
  path :: string
  component :: template
  ctx :: route_context

datatype error = FetchError "string list" | TypeError

text \<open>
  What a procedure that calls the sink \<^verbatim>\<open>createPage\<close> has done when it stops: the routes
  it passed to the sink, in order, and the exception it threw, if any. A throw keeps the
  routes emitted before it.
\<close>

type_synonym emission = "route list \<times> error option"

definition andThen :: "emission \<Rightarrow> emission \<Rightarrow> emission" where
  "andThen first second =
     (case snd first of
        Some e \<Rightarrow> first
      | None \<Rightarrow> (fst first @ fst second, snd second))"

section \<open>The modules required by gatsby-node.js\<close>

text \<open>
  \<^verbatim>\<open>./src/utils/routing\<close> (\<^verbatim>\<open>resolveUrl\<close>) and \<^verbatim>\<open>./src/utils/infinite-scroll\<close> are not
  part of the sources at hand. They are parameters of the model: every theorem below holds
  for any \<^verbatim>\<open>resolveUrl\<close> (called with base path, collection path, slug and url, the
  last three possibly undefined) and any \<^verbatim>\<open>infiniteScroll\<close> (called with the flag and
  the post nodes as they are at the time of the call).
\<close>

record scroll_index =
  indexIds :: "string list"
  tagIds :: "string \<rightharpoonup> string list"
  authorIds :: "string \<rightharpoonup> string list"

record deps =
  resolveUrl :: "string \<Rightarrow> string option \<Rightarrow> string option \<Rightarrow> string option \<Rightarrow> string"
  infiniteScroll :: "bool \<Rightarrow> ghost_node list \<Rightarrow> scroll_index"

subsection \<open>Pagination\<close>

text \<open>The decimal numeral of a number, as template literals print it.\<close>

fun show_nat :: "nat \<Rightarrow> string" where
  "show_nat n =
     (if n < 10 then [''0123456789'' ! n]
      else show_nat (n div 10) @ [''0123456789'' ! (n mod 10)])"

text \<open>
  Modelled from the spec: \<^verbatim>\<open>./src/utils/pagination\<close> (\<^verbatim>\<open>paginate\<close>) is missing from the
  sources. Section 4.4: the number of pages is \<open>ceil(totalItems / itemsPerPage)\<close>, at least
  one page even if \<open>totalItems = 0\<close>.
\<close>

definition numberOfPages :: "nat \<Rightarrow> nat \<Rightarrow> nat" where
  "numberOfPages items perPage = max 1 (nat \<lceil>real items / real perPage\<rceil>)"

text \<open>
  Modelled from the spec: \<^verbatim>\<open>paginate\<close> emits one route per page, in page order. Page 0
  has the path the caller's \<^verbatim>\<open>pathPrefix\<close> gives it; a page \<open>n \<ge> 1\<close> has the caller's
  prefix followed by \<^verbatim>\<open>/\<close> and its 1-indexed number (section 4.4, and \<^verbatim>\<open>/blog/page/2\<close> in
  the scenario of section 8). The context is the caller's pass-through context with the
  page's PaginationContext (section 3); \<open>cursor\<close> is the start offset of the page.
\<close>

definition paginate ::
  "nat \<Rightarrow> nat \<Rightarrow> template \<Rightarrow> (nat \<Rightarrow> string) \<Rightarrow> passthrough \<Rightarrow> route list" where
  "paginate items perPage tmpl pathPrefix pass =
     map (\<lambda>n. \<lparr>path = (if n = 0 then pathPrefix n
                       else pathPrefix n @ ''/'' @ show_nat (n + 1)),
               component = tmpl,
               ctx = PaginatedContext pass
                       \<lparr>pageNumber = n, totalItems = items, itemsPerPage = perPage,
                        cursor = n * perPage\<rparr>\<rparr>)
         [0..<numberOfPages items perPage]"

section \<open>gatsby-node.js\<close>

record createOptions =
  basePath :: string
  iScrollEnabled :: bool
  postsPerPage :: nat

subsection \<open>createOrdinaryPages\<close>

definition createOrdinaryPages ::
  "deps \<Rightarrow> createOptions \<Rightarrow> ghost_node list \<Rightarrow> template \<Rightarrow> route list" where
  "createOrdinaryPages d opts pages tmpl =
     map (\<lambda>node. \<lparr>path = resolveUrl d (basePath opts) (Some ''/'') (Some (slug node)) (url node),
                  component = tmpl,
                  ctx = PageContext (slug node)\<rparr>) pages"

subsection \<open>getCollectionPaths\<close>

text \<open>
  \<^verbatim>\<open>ids.forEach((id) => { paths[id] = posts.find(...).node.collectionPath })\<close>.
  \<^verbatim>\<open>find\<close> returns the first post with that id, or undefined; reading \<^verbatim>\<open>.node\<close> of
  undefined throws a TypeError, and so does \<^verbatim>\<open>ids.forEach\<close> when \<^verbatim>\<open>ids\<close> is undefined.
\<close>

fun getCollectionPaths_forEach ::
  "store \<Rightarrow> string list \<Rightarrow> addr list \<Rightarrow> path_table \<Rightarrow> error + path_table" where
  "getCollectionPaths_forEach h [] posts paths = Inr paths"
| "getCollectionPaths_forEach h (i # ids) posts paths =
     (case find (\<lambda>a. node_id (h a) = i) posts of
        None \<Rightarrow> Inl TypeError
      | Some a \<Rightarrow> getCollectionPaths_forEach h ids posts (paths(i \<mapsto> collectionPath (h a))))"

definition getCollectionPaths ::
  "store \<Rightarrow> string list option \<Rightarrow> addr list \<Rightarrow> error + path_table" where
  "getCollectionPaths h ids posts =
     (case ids of
        None \<Rightarrow> Inl TypeError
      | Some ids' \<Rightarrow> getCollectionPaths_forEach h ids' posts Map.empty)"

subsection \<open>createPostPages\<close>

text \<open>
  \<^verbatim>\<open>_.find(tags, t => node.primary_tag && t.node.slug === node.primary_tag.slug)\<close>, then
  \<^verbatim>\<open>found && found.node && found.node.postCount !== null ? found.node.postCount : 0\<close>.
\<close>

definition primaryTagCountOf :: "ghost_node \<Rightarrow> ghost_node list \<Rightarrow> nat" where
  "primaryTagCountOf node tags =
     (case find (\<lambda>t. case primary_tag node of None \<Rightarrow> False | Some s \<Rightarrow> slug t = s) tags of
        None \<Rightarrow> 0
      | Some t \<Rightarrow> (case postCount t of None \<Rightarrow> 0 | Some c \<Rightarrow> c))"

definition prevNodes :: "store \<Rightarrow> addr list \<Rightarrow> string list" where
  "prevNodes h posts = [''''] @ map (\<lambda>a. slug (h a)) (butlast posts)"

definition nextNodes :: "store \<Rightarrow> addr list \<Rightarrow> string list" where
  "nextNodes h posts = map (\<lambda>a. slug (h a)) (drop 1 posts) @ ['''']"

definition lookupPath :: "path_table \<Rightarrow> string \<Rightarrow> string option" where
  "lookupPath paths i = (case paths i of None \<Rightarrow> None | Some v \<Rightarrow> v)"

definition createPostPages ::
  "deps \<Rightarrow> createOptions \<Rightarrow> store \<Rightarrow> addr list \<Rightarrow> ghost_node list \<Rightarrow> template \<Rightarrow> string
     \<Rightarrow> emission" where
  "createPostPages d opts h posts tags tmpl ampPath =
     (case getCollectionPaths h (Some (map (\<lambda>a. node_id (h a)) posts)) posts of
        Inl e \<Rightarrow> ([], Some e)
      | Inr collectionPaths \<Rightarrow>
          (map (\<lambda>i. let node = h (posts ! i);
                        collPath = lookupPath collectionPaths (node_id node);
                        u = resolveUrl d (basePath opts) collPath (Some (slug node)) (url node)
                    in \<lparr>path = u @ ampPath,
                        component = tmpl,
                        ctx = PostContext
                          \<lparr>pc_slug = slug node,
                           pc_prev = prevNodes h posts ! i,
                           pc_next = nextNodes h posts ! i,
                           pc_tag = (case primary_tag node of
                                       None \<Rightarrow> ''''
                                     | Some s \<Rightarrow> if s \<noteq> '''' then s else ''''),
                           pc_limit = 3,
                           pc_skip = 0,
                           primaryTagCount = primaryTagCountOf node tags,
                           pc_collectionPaths = collectionPaths\<rparr>\<rparr>)
               [0..<length posts],
           None))"

subsection \<open>createIndexPage\<close>

definition createIndexPage ::
  "deps \<Rightarrow> createOptions \<Rightarrow> addr list \<Rightarrow> string list \<Rightarrow> template \<Rightarrow> string option
     \<Rightarrow> route list" where
  "createIndexPage d opts posts postIds tmpl collectionPath_arg =
     (let collPath = (case collectionPath_arg of None \<Rightarrow> ''/'' | Some p \<Rightarrow> p);
          root = resolveUrl d (basePath opts) (Some collPath) None None
      in paginate (length posts) (postsPerPage opts) tmpl
           (\<lambda>pageNumber. if pageNumber = 0 then root else root @ ''page'')
           (IndexPass \<lparr>ic_collectionPath = collPath,
                       ic_iScrollEnabled = iScrollEnabled opts,
                       ic_postIds = postIds,
                       ic_cursor = 0\<rparr>))"

subsection \<open>createTaxonomyPages\<close>

fun createTaxonomyPages ::
  "deps \<Rightarrow> createOptions \<Rightarrow> store \<Rightarrow> ghost_node list \<Rightarrow> (string \<rightharpoonup> string list) \<Rightarrow> template
     \<Rightarrow> addr list \<Rightarrow> emission" where
  "createTaxonomyPages d opts h [] postIds tmpl allPosts = ([], None)"
| "createTaxonomyPages d opts h (node # taxonomy) postIds tmpl allPosts =
     (let u = resolveUrl d (basePath opts) (Some ''/'') (Some (slug node)) (url node)
      in case getCollectionPaths h (postIds (slug node)) allPosts of
           Inl e \<Rightarrow> ([], Some e)
         | Inr collectionPaths \<Rightarrow>
             andThen
               (paginate (case postCount node of None \<Rightarrow> 0 | Some c \<Rightarrow> c) (postsPerPage opts) tmpl
                  (\<lambda>pageNumber. if pageNumber = 0 then u else u @ ''page'')
                  (TaxonomyPass \<lparr>tc_slug = slug node,
                                 tc_collectionPaths = collectionPaths,
                                 tc_iScrollEnabled = iScrollEnabled opts,
                                 tc_postIds = (case postIds (slug node) of None \<Rightarrow> [] | Some ids' \<Rightarrow> ids'),
                                 tc_cursor = 0\<rparr>),
                None)
               (createTaxonomyPages d opts h taxonomy postIds tmpl allPosts))"

subsection \<open>Collections\<close>

definition createCollection ::
  "deps \<Rightarrow> createOptions \<Rightarrow> store \<Rightarrow> addr list \<Rightarrow> ghost_node list \<Rightarrow> string option
     \<Rightarrow> emission" where
  "createCollection d opts h posts allTags collectionPath_arg =
     andThen
       (createPostPages d opts h posts allTags PostTemplate '''')
       (createIndexPage d opts posts
          (indexIds (infiniteScroll d (iScrollEnabled opts) (map h posts)))
          IndexTemplate collectionPath_arg,
        None)"

record collectionData =
  primary :: "addr list"
  residual :: "addr list"

text \<open>
  \<^verbatim>\<open>getCollection\<close>: the selector defaults to \<^verbatim>\<open>() => false\<close>; the residual posts are
  filtered after the matched posts have been stamped, so the second filter calls the
  selector on the nodes as the first \<^verbatim>\<open>forEach\<close> left them.
\<close>

definition getCollection ::
  "pstate \<Rightarrow> addr list \<Rightarrow> string \<Rightarrow> (ghost_node \<Rightarrow> bool) option \<Rightarrow> collectionData \<times> pstate" where
  "getCollection st posts collPath selector_arg =
     (let selector = (case selector_arg of None \<Rightarrow> (\<lambda>node. False) | Some s \<Rightarrow> s);
          collection = filter (\<lambda>a. selector (heap st a)) posts;
          st1 = fold (set_collectionPath collPath) collection st;
          residualPosts = filter (\<lambda>a. \<not> selector (heap st1 a)) posts;
          st2 = fold (set_collectionPath ''/'') residualPosts st1
      in (\<lparr>primary = collection, residual = residualPosts\<rparr>, st2))"

text \<open>
  A configured collection, \<^verbatim>\<open>{ path, selector }\<close>; the selector may be left out.
\<close>

record collection =
  c_path :: string
  c_selector :: "(ghost_node \<Rightarrow> bool) option"

text \<open>
  The loop \<^verbatim>\<open>collections.forEach\<close> of \<^verbatim>\<open>createPages\<close> over the variable
  \<^verbatim>\<open>collectionData\<close>. Its result: the posts left in \<^verbatim>\<open>collectionData\<close>, the state, the
  arguments (collection path and posts) of every call of \<^verbatim>\<open>createCollection\<close> in order,
  and what was emitted. An exception leaves the loop.
\<close>

record loopResult =
  lr_posts :: "addr list"
  lr_state :: pstate
  lr_calls :: "(string option \<times> addr list) list"
  lr_emitted :: emission

fun collections_forEach ::
  "deps \<Rightarrow> createOptions \<Rightarrow> ghost_node list \<Rightarrow> collection list \<Rightarrow> addr list \<Rightarrow> pstate
     \<Rightarrow> loopResult" where
  "collections_forEach d opts allTags [] collData st =
     \<lparr>lr_posts = collData, lr_state = st, lr_calls = [], lr_emitted = ([], None)\<rparr>"
| "collections_forEach d opts allTags (c # cs) collData st =
     (let got = getCollection st collData (c_path c) (c_selector c);
          st1 = snd got;
          em = createCollection d opts (heap st1) (primary (fst got)) allTags (Some (c_path c))
      in case snd em of
           Some e \<Rightarrow>
             \<lparr>lr_posts = residual (fst got), lr_state = st1,
              lr_calls = [(Some (c_path c), primary (fst got))], lr_emitted = em\<rparr>
         | None \<Rightarrow>
             (let r = collections_forEach d opts allTags cs (residual (fst got)) st1
              in r\<lparr>lr_calls := (Some (c_path c), primary (fst got)) # lr_calls r,
                   lr_emitted := andThen em (lr_emitted r)\<rparr>))"

subsection \<open>createPages\<close>

record routesOptions =
  ro_basePath :: "string option"
  ro_collections :: "collection list option"

record themeOptions =
  to_routes :: "routesOptions option"
  to_infiniteScroll :: bool

text \<open>
  The value the GraphQL call resolves to: \<^verbatim>\<open>result.errors\<close> (absent when the fetch
  succeeded) and \<^verbatim>\<open>result.data\<close>. The post edges of \<^verbatim>\<open>allGhostPost\<close> are addresses.
\<close>

record queryData =
  q_pages :: "ghost_node list"
  q_posts :: "addr list"
  q_tags :: "ghost_node list"
  q_authors :: "ghost_node list"
  q_postsPerPage :: nat

record queryResult =
  q_errors :: "string list option"
  q_data :: queryData

text \<open>
  What a run of \<^verbatim>\<open>createPages\<close> leaves behind: the routes passed to the sink, the
  exception the promise is rejected with (if any), the calls of \<^verbatim>\<open>createCollection\<close>
  (the configured collections in order, then the default collection, whose path argument
  is left out), and the state.
\<close>

record outcome =
  created :: "route list"
  thrown :: "error option"
  calls :: "(string option \<times> addr list) list"
  final :: pstate

definition basePathOf :: "themeOptions \<Rightarrow> string" where
  "basePathOf themeOpts =
     (case to_routes themeOpts of
        None \<Rightarrow> ''/''
      | Some r \<Rightarrow> (case ro_basePath r of
                    None \<Rightarrow> ''/''
                  | Some b \<Rightarrow> if b = '''' then ''/'' else b))"

definition collectionsOf :: "themeOptions \<Rightarrow> collection list" where
  "collectionsOf themeOpts =
     (case to_routes themeOpts of
        None \<Rightarrow> []
      | Some r \<Rightarrow> (case ro_collections r of None \<Rightarrow> [] | Some cs \<Rightarrow> cs))"

text \<open>\<^verbatim>\<open>node.postCount > 0\<close>; \<^verbatim>\<open>null > 0\<close> is false.\<close>

definition hasPosts :: "ghost_node \<Rightarrow> bool" where
  "hasPosts node = (case postCount node of None \<Rightarrow> False | Some c \<Rightarrow> 0 < c)"

text \<open>The record \<^verbatim>\<open>createOptions\<close> that \<^verbatim>\<open>createPages\<close> builds for its helpers.\<close>

definition createOptionsOf :: "themeOptions \<Rightarrow> queryData \<Rightarrow> createOptions" where
  "createOptionsOf themeOpts dat =
     \<lparr>basePath = basePathOf themeOpts,
      iScrollEnabled = to_infiniteScroll themeOpts,
      postsPerPage = q_postsPerPage dat\<rparr>"

definition createPages :: "deps \<Rightarrow> themeOptions \<Rightarrow> queryResult \<Rightarrow> pstate \<Rightarrow> outcome" where
  "createPages d themeOpts result st =
     (case q_errors result of
        Some es \<Rightarrow> \<lparr>created = [], thrown = Some (FetchError es), calls = [], final = st\<rparr>
      | None \<Rightarrow>
          (let dat = q_data result;
               opts = createOptionsOf themeOpts dat;
               ordinary = createOrdinaryPages d opts (q_pages dat) PageTemplate;
               loop = collections_forEach d opts (q_tags dat) (collectionsOf themeOpts)
                        (q_posts dat) st;
               h = heap (lr_state loop);
               dflt = createCollection d opts h (lr_posts loop) (q_tags dat) None;
               ids = infiniteScroll d (iScrollEnabled opts) (map h (q_posts dat));
               postTags = filter hasPosts (q_tags dat);
               postAuthors = filter hasPosts (q_authors dat);
               em = andThen (ordinary, None)
                      (andThen (lr_emitted loop)
                         (andThen dflt
                            (andThen
                               (createTaxonomyPages d opts h postTags (tagIds ids)
                                  TagTemplate (q_posts dat))
                               (createTaxonomyPages d opts h postAuthors (authorIds ids)
                                  AuthorTemplate (q_posts dat)))))
           in \<lparr>created = fst em, thrown = snd em,
               calls = lr_calls loop @
                         (if snd (lr_emitted loop) = None then [(None, lr_posts loop)] else []),
               final = lr_state loop\<rparr>))"

section \<open>Notions used to state the properties\<close>

text \<open>
  The selector \<^verbatim>\<open>getCollection\<close> applies for a configured collection
  (\<^verbatim>\<open>() => false\<close> when the collection has none).
\<close>

definition selectorOf :: "collection \<Rightarrow> ghost_node \<Rightarrow> bool" where
  "selectorOf c = (case c_selector c of None \<Rightarrow> (\<lambda>node. False) | Some s \<Rightarrow> s)"

text \<open>
  A selector is called with the node object itself, which carries the field
  \<^verbatim>\<open>collectionPath\<close> once it has been stamped. A selector that is a predicate on the
  content of a node, as the specification types it, gives the same verdict whatever the
  stamp is.
\<close>

definition readsContentOnly :: "(ghost_node \<Rightarrow> bool) \<Rightarrow> bool" where
  "readsContentOnly sel = (\<forall>node p. sel (node\<lparr>collectionPath := p\<rparr>) = sel node)"

text \<open>The index of the earliest configured collection whose selector accepts the node.\<close>

fun firstMatch :: "collection list \<Rightarrow> ghost_node \<Rightarrow> nat option" where
  "firstMatch [] node = None"
| "firstMatch (c # cs) node =
     (if selectorOf c node then Some 0 else map_option Suc (firstMatch cs node))"

text \<open>The path of that collection, or \<^verbatim>\<open>/\<close> when no selector accepts the node.\<close>

definition assignedPath :: "collection list \<Rightarrow> ghost_node \<Rightarrow> string" where
  "assignedPath cs node =
     (case find (\<lambda>c. selectorOf c node) cs of None \<Rightarrow> ''/'' | Some c \<Rightarrow> c_path c)"

text \<open>The values assigned to the \<^verbatim>\<open>collectionPath\<close> of the post at an address, in order.\<close>

definition writesTo :: "addr \<Rightarrow> (addr \<times> string) list \<Rightarrow> string list" where
  "writesTo a ws = map snd (filter (\<lambda>w. fst w = a) ws)"

text \<open>The table \<^verbatim>\<open>getCollectionPaths\<close> builds from the ids of the posts themselves.\<close>

definition pathsOf :: "store \<Rightarrow> addr list \<Rightarrow> path_table" where
  "pathsOf h posts =
     (\<lambda>i. if i \<in> set (map (\<lambda>a. node_id (h a)) posts)
          then map_option (\<lambda>a. collectionPath (h a)) (find (\<lambda>a. node_id (h a) = i) posts)
          else None)"

text \<open>The routes of a taxonomy template whose context carries a given slug.\<close>

definition taxonomySlug :: "route \<Rightarrow> string option" where
  "taxonomySlug r =
     (case ctx r of
        PaginatedContext (TaxonomyPass tc) pg \<Rightarrow> Some (tc_slug tc)
      | _ \<Rightarrow> None)"

definition taxonomyRoutes :: "template \<Rightarrow> string \<Rightarrow> route list \<Rightarrow> route list" where
  "taxonomyRoutes tmpl s rs = filter (\<lambda>r. component r = tmpl \<and> taxonomySlug r = Some s) rs"


definition postContextOf :: "route \<Rightarrow> post_context option" where
  "postContextOf r = (case ctx r of PostContext pc \<Rightarrow> Some pc | _ \<Rightarrow> None)"

definition indexCollectionPath :: "route \<Rightarrow> string option" where
  "indexCollectionPath r =
     (case ctx r of
        PaginatedContext (IndexPass ic) pg \<Rightarrow> Some (ic_collectionPath ic)
      | _ \<Rightarrow> None)"


subsection \<open>Concrete inputs\<close>

text \<open>
  An instance of the two modules that are parameters of the model, and a way to write
  down post, tag and author nodes. They serve to evaluate the model at concrete inputs;
  no general statement below depends on them.
\<close>

fun collapse_slashes :: "string \<Rightarrow> string" where
  "collapse_slashes (a # b # cs) =
     (if a = CHR ''/'' \<and> b = CHR ''/'' then collapse_slashes (b # cs)
      else a # collapse_slashes (b # cs))"
| "collapse_slashes cs = cs"

definition example_deps :: deps where
  "example_deps =
     \<lparr>resolveUrl = (\<lambda>base collPath s u.
         collapse_slashes
           (''/'' @ base @ ''/'' @ (case collPath of None \<Rightarrow> '''' | Some c \<Rightarrow> c) @ ''/'' @
            (case u of
               Some x \<Rightarrow> if x \<noteq> '''' then x else (case s of None \<Rightarrow> '''' | Some y \<Rightarrow> y)
             | None \<Rightarrow> (case s of None \<Rightarrow> '''' | Some y \<Rightarrow> y)) @ ''/'')),
      infiniteScroll = (\<lambda>enabled nodes.
         \<lparr>indexIds = (if enabled then map node_id nodes else []),
          tagIds = (\<lambda>s. Some (map node_id (filter (\<lambda>n. primary_tag n = Some s) nodes))),
          authorIds = (\<lambda>s. Some [])\<rparr>)\<rparr>"

definition example_post :: "string \<Rightarrow> string \<Rightarrow> string option \<Rightarrow> ghost_node" where
  "example_post i s t =
     \<lparr>node_id = i, slug = s, url = None, primary_tag = t, postCount = None,
      collectionPath = None\<rparr>"

definition example_taxonomy :: "string \<Rightarrow> nat option \<Rightarrow> ghost_node" where
  "example_taxonomy s n =
     \<lparr>node_id = s, slug = s, url = None, primary_tag = None, postCount = n,
      collectionPath = None\<rparr>"

definition example_state :: "ghost_node list \<Rightarrow> pstate" where
  "example_state nodes =
     \<lparr>heap = (\<lambda>a. if a < length nodes then nodes ! a else example_post '''' '''' None),
      writes = []\<rparr>"

definition example_options :: "collection list \<Rightarrow> themeOptions" where
  "example_options cs =
     \<lparr>to_routes = Some \<lparr>ro_basePath = Some ''/blog/'', ro_collections = Some cs\<rparr>,
      to_infiniteScroll = False\<rparr>"

definition example_result :: "addr list \<Rightarrow> ghost_node list \<Rightarrow> nat \<Rightarrow> queryResult" where
  "example_result ps ts n =
     \<lparr>q_errors = None,
      q_data = \<lparr>q_pages = [], q_posts = ps, q_tags = ts, q_authors = [], q_postsPerPage = n\<rparr>\<rparr>"

section \<open>Auxiliary facts\<close>

lemma find_some_iff_ex: "(find P xs \<noteq> None) = (\<exists>x\<in>set xs. P x)"
  by (induction xs) auto

lemma getCollectionPaths_forEach_found:
  "\<forall>i\<in>set ids. \<exists>a\<in>set posts. node_id (h a) = i \<Longrightarrow>
   getCollectionPaths_forEach h ids posts paths =
     Inr (\<lambda>i. if i \<in> set ids
               then map_option (\<lambda>a. collectionPath (h a)) (find (\<lambda>a. node_id (h a) = i) posts)
               else paths i)"
proof (induction ids arbitrary: paths)
  case Nil
  then show ?case by simp
next
  case (Cons i ids)
  from Cons.prems obtain a where a: "find (\<lambda>a. node_id (h a) = i) posts = Some a"
    using find_some_iff_ex[of "\<lambda>a. node_id (h a) = i" posts] by auto
  from Cons.prems have rest: "\<forall>i\<in>set ids. \<exists>a\<in>set posts. node_id (h a) = i" by simp
  show ?case
    using a Cons.IH[OF rest] by (auto simp: fun_eq_iff)
qed


lemma getCollectionPaths_own_ids:
  "getCollectionPaths h (Some (map (\<lambda>a. node_id (h a)) posts)) posts = Inr (pathsOf h posts)"
  unfolding getCollectionPaths_def pathsOf_def
  by (simp, subst getCollectionPaths_forEach_found) auto

lemma createPostPages_total:
  "snd (createPostPages d opts h posts tags tmpl amp) = None"
  by (simp add: createPostPages_def getCollectionPaths_own_ids)

lemma createPostPages_length:
  "length (fst (createPostPages d opts h posts tags tmpl amp)) = length posts"
  by (simp add: createPostPages_def getCollectionPaths_own_ids)

lemma heap_fold_set:
  "heap (fold (set_collectionPath v) as st) =
     (\<lambda>a. if a \<in> set as then (heap st a)\<lparr>collectionPath := Some v\<rparr> else heap st a)"
  by (induction as arbitrary: st) (auto simp: set_collectionPath_def fun_eq_iff)

lemma writes_fold_set:
  "writes (fold (set_collectionPath v) as st) = writes st @ map (\<lambda>a. (a, v)) as"
  by (induction as arbitrary: st) (auto simp: set_collectionPath_def)

lemma selector_after_fold:
  "readsContentOnly S \<Longrightarrow> S (heap (fold (set_collectionPath v) as st) a) = S (heap st a)"
  by (simp add: heap_fold_set readsContentOnly_def)

lemma getCollection_selectorOf:
  "getCollection st ps cp (c_selector c) =
     (let collection = filter (\<lambda>a. selectorOf c (heap st a)) ps;
          st1 = fold (set_collectionPath cp) collection st;
          residualPosts = filter (\<lambda>a. \<not> selectorOf c (heap st1 a)) ps
      in (\<lparr>primary = collection, residual = residualPosts\<rparr>,
          fold (set_collectionPath ''/'') residualPosts st1))"
  by (simp add: getCollection_def selectorOf_def Let_def)

lemma getCollection_content:
  assumes "readsContentOnly (selectorOf c)"
  shows "getCollection st ps cp (c_selector c) =
     (\<lparr>primary = filter (\<lambda>a. selectorOf c (heap st a)) ps,
       residual = filter (\<lambda>a. \<not> selectorOf c (heap st a)) ps\<rparr>,
      fold (set_collectionPath ''/'') (filter (\<lambda>a. \<not> selectorOf c (heap st a)) ps)
        (fold (set_collectionPath cp) (filter (\<lambda>a. selectorOf c (heap st a)) ps) st))"
  by (simp add: getCollection_selectorOf Let_def selector_after_fold[OF assms])

lemma getCollection_heap:
  assumes "readsContentOnly (selectorOf c)"
  shows "heap (snd (getCollection st ps cp (c_selector c))) =
     (\<lambda>a. if a \<in> set ps
          then (heap st a)\<lparr>collectionPath := Some (if selectorOf c (heap st a) then cp else ''/'')\<rparr>
          else heap st a)"
  by (auto simp: getCollection_content[OF assms] heap_fold_set fun_eq_iff)

lemma getCollection_writes:
  assumes "readsContentOnly (selectorOf c)"
  shows "writes (snd (getCollection st ps cp (c_selector c))) =
     writes st @ map (\<lambda>a. (a, cp)) (filter (\<lambda>a. selectorOf c (heap st a)) ps)
               @ map (\<lambda>a. (a, ''/'')) (filter (\<lambda>a. \<not> selectorOf c (heap st a)) ps)"
  by (simp add: getCollection_content[OF assms] writes_fold_set)

lemma andThen_simps:
  "andThen (rs, None) em = (rs @ fst em, snd em)"
  "andThen (rs, Some e) em = (rs, Some e)"
  by (simp_all add: andThen_def)

lemma createCollection_total:
  "snd (createCollection d opts h ps tags cp) = None"
  by (simp add: createCollection_def andThen_def createPostPages_total)

lemma collections_forEach_Cons:
  "collections_forEach d opts tags (c # cs) cd st =
     (let got = getCollection st cd (c_path c) (c_selector c);
          r = collections_forEach d opts tags cs (residual (fst got)) (snd got)
      in r\<lparr>lr_calls := (Some (c_path c), primary (fst got)) # lr_calls r,
           lr_emitted := andThen (createCollection d opts (heap (snd got)) (primary (fst got))
                                    tags (Some (c_path c))) (lr_emitted r)\<rparr>)"
  by (simp add: Let_def createCollection_total)

lemma collections_forEach_total:
  "snd (lr_emitted (collections_forEach d opts tags cs cd st)) = None"
proof (induction cs arbitrary: cd st)
  case Nil
  then show ?case by simp
next
  case (Cons c cs)
  show ?case
    unfolding collections_forEach_Cons Let_def
    by (simp add: andThen_def createCollection_total Cons.IH)
qed

lemma firstMatch_content:
  "\<forall>c\<in>set cs. readsContentOnly (selectorOf c) \<Longrightarrow>
   firstMatch cs (node\<lparr>collectionPath := p\<rparr>) = firstMatch cs node"
  by (induction cs) (auto simp: readsContentOnly_def)

lemma assignedPath_content:
  "\<forall>c\<in>set cs. readsContentOnly (selectorOf c) \<Longrightarrow>
   assignedPath cs (node\<lparr>collectionPath := p\<rparr>) = assignedPath cs node"
  unfolding assignedPath_def
  by (induction cs) (auto simp: readsContentOnly_def)

lemma assignedPath_simps:
  "assignedPath [] node = ''/''"
  "assignedPath (c # cs) node = (if selectorOf c node then c_path c else assignedPath cs node)"
  by (simp_all add: assignedPath_def)

lemma assignedPath_firstMatch:
  "assignedPath cs node = (case firstMatch cs node of None \<Rightarrow> ''/'' | Some i \<Rightarrow> c_path (cs ! i))"
  by (induction cs) (auto simp: assignedPath_simps split: option.splits)

lemma firstMatch_Some_iff:
  "firstMatch cs node = Some i \<longleftrightarrow>
     i < length cs \<and> selectorOf (cs ! i) node \<and> (\<forall>j<i. \<not> selectorOf (cs ! j) node)"
proof (induction cs arbitrary: i)
  case Nil
  then show ?case by simp
next
  case (Cons c cs)
  show ?case
  proof (cases "selectorOf c node")
    case True
    then show ?thesis by (cases i) auto
  next
    case False
    show ?thesis
    proof (cases i)
      case 0
      with False show ?thesis by auto
    next
      case (Suc k)
      have "(\<forall>j<Suc k. \<not> selectorOf ((c # cs) ! j) node) \<longleftrightarrow> (\<forall>j<k. \<not> selectorOf (cs ! j) node)"
        using False by (auto simp: less_Suc_eq_0_disj)
      with False Suc Cons.IH[of k] show ?thesis by auto
    qed
  qed
qed

lemma firstMatch_None_iff:
  "firstMatch cs node = None \<longleftrightarrow> (\<forall>c\<in>set cs. \<not> selectorOf c node)"
  by (induction cs) auto

lemma collections_forEach_posts:
  "\<forall>c\<in>set cs. readsContentOnly (selectorOf c) \<Longrightarrow>
   lr_posts (collections_forEach d opts tags cs cd st) =
     filter (\<lambda>a. firstMatch cs (heap st a) = None) cd"
proof (induction cs arbitrary: cd st)
  case Nil
  then show ?case by simp
next
  case (Cons c cs)
  then have c: "readsContentOnly (selectorOf c)" and cs: "\<forall>c\<in>set cs. readsContentOnly (selectorOf c)"
    by simp_all
  have "lr_posts (collections_forEach d opts tags (c # cs) cd st) =
        filter (\<lambda>a. firstMatch cs (heap (snd (getCollection st cd (c_path c) (c_selector c))) a) = None)
          (filter (\<lambda>a. \<not> selectorOf c (heap st a)) cd)"
    unfolding collections_forEach_Cons Let_def
    by (simp add: Cons.IH[OF cs] getCollection_content[OF c])
  also have "\<dots> = filter (\<lambda>a. firstMatch cs (heap st a) = None)
                     (filter (\<lambda>a. \<not> selectorOf c (heap st a)) cd)"
    by (rule filter_cong) (auto simp: getCollection_heap[OF c] firstMatch_content[OF cs])
  also have "\<dots> = filter (\<lambda>a. firstMatch (c # cs) (heap st a) = None) cd"
    by (auto intro: filter_cong)
  finally show ?case .
qed

lemma collections_forEach_calls:
  "\<forall>c\<in>set cs. readsContentOnly (selectorOf c) \<Longrightarrow>
   lr_calls (collections_forEach d opts tags cs cd st) =
     map (\<lambda>i. (Some (c_path (cs ! i)), filter (\<lambda>a. firstMatch cs (heap st a) = Some i) cd))
       [0..<length cs]"
proof (induction cs arbitrary: cd st)
  case Nil
  then show ?case by simp
next
  case (Cons c cs)
  then have c: "readsContentOnly (selectorOf c)" and cs: "\<forall>c\<in>set cs. readsContentOnly (selectorOf c)"
    by simp_all
  let ?st1 = "snd (getCollection st cd (c_path c) (c_selector c))"
  let ?R = "filter (\<lambda>a. \<not> selectorOf c (heap st a)) cd"
  have rest: "filter (\<lambda>a. firstMatch cs (heap ?st1 a) = Some i) ?R =
              filter (\<lambda>a. firstMatch (c # cs) (heap st a) = Some (Suc i)) cd" for i
  proof -
    have "filter (\<lambda>a. firstMatch cs (heap ?st1 a) = Some i) ?R =
          filter (\<lambda>a. firstMatch cs (heap st a) = Some i) ?R"
      by (rule filter_cong) (auto simp: getCollection_heap[OF c] firstMatch_content[OF cs])
    also have "\<dots> = filter (\<lambda>a. firstMatch (c # cs) (heap st a) = Some (Suc i)) cd"
      by (auto intro: filter_cong)
    finally show ?thesis .
  qed
  have "lr_calls (collections_forEach d opts tags (c # cs) cd st) =
        (Some (c_path c), filter (\<lambda>a. selectorOf c (heap st a)) cd) #
        map (\<lambda>i. (Some (c_path (cs ! i)), filter (\<lambda>a. firstMatch cs (heap ?st1 a) = Some i) ?R))
          [0..<length cs]"
    unfolding collections_forEach_Cons Let_def
    by (simp add: Cons.IH[OF cs] getCollection_content[OF c])
  also have "\<dots> = (Some (c_path c), filter (\<lambda>a. selectorOf c (heap st a)) cd) #
        map (\<lambda>i. (Some (c_path ((c # cs) ! Suc i)),
                   filter (\<lambda>a. firstMatch (c # cs) (heap st a) = Some (Suc i)) cd))
          [0..<length cs]"
    by (simp only: rest nth_Cons_Suc)
  also have "\<dots> = map (\<lambda>i. (Some (c_path ((c # cs) ! i)),
                          filter (\<lambda>a. firstMatch (c # cs) (heap st a) = Some i) cd))
                   [0..<length (c # cs)]"
  proof -
    have first: "filter (\<lambda>a. selectorOf c (heap st a)) cd =
                 filter (\<lambda>a. firstMatch (c # cs) (heap st a) = Some 0) cd"
      by (auto intro: filter_cong)
    have "[0..<length (c # cs)] = 0 # map Suc [0..<length cs]"
      by (simp add: upt_conv_Cons map_Suc_upt del: upt_Suc)
    then show ?thesis
      by (simp only: first list.map map_map o_def nth_Cons_0)
  qed
  finally show ?case .
qed

lemma collections_forEach_heap:
  "\<forall>c\<in>set cs. readsContentOnly (selectorOf c) \<Longrightarrow>
   heap (lr_state (collections_forEach d opts tags cs cd st)) =
     (\<lambda>a. if a \<in> set cd \<and> cs \<noteq> []
          then (heap st a)\<lparr>collectionPath := Some (assignedPath cs (heap st a))\<rparr>
          else heap st a)"
proof (induction cs arbitrary: cd st)
  case Nil
  then show ?case by simp
next
  case (Cons c cs)
  then have c: "readsContentOnly (selectorOf c)" and cs: "\<forall>c\<in>set cs. readsContentOnly (selectorOf c)"
    by simp_all
  show ?case
    unfolding collections_forEach_Cons Let_def
    by (auto simp: Cons.IH[OF cs] getCollection_content[OF c] heap_fold_set fun_eq_iff
          assignedPath_simps assignedPath_content[OF cs])
qed

lemma writesTo_append: "writesTo a (xs @ ys) = writesTo a xs @ writesTo a ys"
  by (simp add: writesTo_def)

lemma writesTo_map:
  "distinct xs \<Longrightarrow> writesTo a (map (\<lambda>x. (x, v)) xs) = (if a \<in> set xs then [v] else [])"
  by (induction xs) (auto simp: writesTo_def)

lemma collections_forEach_writes:
  "\<forall>c\<in>set cs. readsContentOnly (selectorOf c) \<Longrightarrow> distinct cd \<Longrightarrow>
   writesTo a (writes (lr_state (collections_forEach d opts tags cs cd st))) =
     writesTo a (writes st) @
       (if a \<in> set cd
        then (case firstMatch cs (heap st a) of
                Some i \<Rightarrow> replicate i ''/'' @ [c_path (cs ! i)]
              | None \<Rightarrow> replicate (length cs) ''/'')
        else [])"
proof (induction cs arbitrary: cd st)
  case Nil
  then show ?case by simp
next
  case (Cons c cs)
  then have c: "readsContentOnly (selectorOf c)" and cs: "\<forall>c\<in>set cs. readsContentOnly (selectorOf c)"
    by simp_all
  let ?R = "filter (\<lambda>a. \<not> selectorOf c (heap st a)) cd"
  have dR: "distinct ?R" using Cons.prems(2) by simp
  show ?case
    unfolding collections_forEach_Cons Let_def
    using Cons.prems(2)
    by (auto simp: Cons.IH[OF cs dR] getCollection_content[OF c] heap_fold_set writes_fold_set
          writesTo_append writesTo_map firstMatch_content[OF cs] replicate_app_Cons_same
          split: option.splits)
qed

lemma getCollectionPaths_forEach_cong:
  "\<forall>a\<in>set posts. h a = h' a \<Longrightarrow>
   getCollectionPaths_forEach h ids posts m = getCollectionPaths_forEach h' ids posts m"
proof (induction ids arbitrary: m)
  case Nil
  then show ?case by simp
next
  case (Cons i ids)
  have f: "find (\<lambda>a. node_id (h a) = i) posts = find (\<lambda>a. node_id (h' a) = i) posts"
    using Cons.prems by (auto intro: find_cong)
  show ?case
  proof (cases "find (\<lambda>a. node_id (h' a) = i) posts")
    case None
    with f show ?thesis by simp
  next
    case (Some a)
    then have "a \<in> set posts" by (auto simp: find_Some_iff)
    with Cons.prems have ha: "h a = h' a" by simp
    have "getCollectionPaths_forEach h (i # ids) posts m =
          getCollectionPaths_forEach h ids posts (m(i \<mapsto> collectionPath (h a)))"
      using f Some by simp
    also have "\<dots> = getCollectionPaths_forEach h' ids posts (m(i \<mapsto> collectionPath (h a)))"
      by (rule Cons.IH[OF Cons.prems])
    also have "\<dots> = getCollectionPaths_forEach h' (i # ids) posts m"
      using Some by (simp only: getCollectionPaths_forEach.simps option.case ha)
    finally show ?thesis .
  qed
qed

lemma getCollectionPaths_cong:
  "\<forall>a\<in>set posts. h a = h' a \<Longrightarrow> getCollectionPaths h ids posts = getCollectionPaths h' ids posts"
  by (simp add: getCollectionPaths_def getCollectionPaths_forEach_cong split: option.splits)

lemma createPostPages_cong:
  assumes "\<forall>a\<in>set posts. h a = h' a"
  shows "createPostPages d opts h posts tags tmpl amp = createPostPages d opts h' posts tags tmpl amp"
proof -
  have m: "map (\<lambda>a. f (h a)) xs = map (\<lambda>a. f (h' a)) xs" if "set xs \<subseteq> set posts" for f :: "ghost_node \<Rightarrow> string" and xs
    using that assms by (auto intro!: map_cong)
  have ids: "map (\<lambda>a. node_id (h a)) posts = map (\<lambda>a. node_id (h' a)) posts"
    by (rule m) simp
  have p: "prevNodes h posts = prevNodes h' posts"
    unfolding prevNodes_def using m[of "butlast posts" slug] by (auto dest: in_set_butlastD)
  have n: "nextNodes h posts = nextNodes h' posts"
    unfolding nextNodes_def using m[of "drop 1 posts" slug] by (auto dest: in_set_dropD)
  have nth: "h (posts ! i) = h' (posts ! i)" if "i < length posts" for i
    using that assms by simp
  show ?thesis
    unfolding createPostPages_def ids p n getCollectionPaths_cong[OF assms]
    by (auto split: sum.splits simp: nth Let_def)
qed

lemma createCollection_cong:
  assumes "\<forall>a\<in>set posts. h a = h' a"
  shows "createCollection d opts h posts tags cp = createCollection d opts h' posts tags cp"
proof -
  have m: "map h posts = map h' posts" using assms by (auto intro: map_cong)
  show ?thesis
    unfolding createCollection_def createPostPages_cong[OF assms] m ..
qed

lemma createTaxonomyPages_cong:
  assumes "\<forall>a\<in>set allPosts. h a = h' a"
  shows "createTaxonomyPages d opts h taxonomy postIds tmpl allPosts =
         createTaxonomyPages d opts h' taxonomy postIds tmpl allPosts"
proof (induction taxonomy)
  case Nil
  show ?case by simp
next
  case (Cons node taxonomy)
  show ?case
    by (simp only: createTaxonomyPages.simps Let_def getCollectionPaths_cong[OF assms] Cons.IH)
qed

lemma getCollection_subsets:
  "set (primary (fst (getCollection st ps cp sel))) \<subseteq> set ps"
  "set (residual (fst (getCollection st ps cp sel))) \<subseteq> set ps"
  by (auto simp: getCollection_def Let_def)

lemma getCollection_agree:
  assumes "\<forall>a\<in>S. heap st a = heap st' a" and "set ps \<subseteq> S"
  shows "fst (getCollection st ps cp sel) = fst (getCollection st' ps cp sel)"
    and "\<forall>a\<in>S. heap (snd (getCollection st ps cp sel)) a = heap (snd (getCollection st' ps cp sel)) a"
proof -
  define f where "f = (case sel of None \<Rightarrow> (\<lambda>node. False) | Some s \<Rightarrow> s)"
  have c: "filter (\<lambda>a. f (heap st a)) ps = filter (\<lambda>a. f (heap st' a)) ps"
    using assms by (auto intro!: filter_cong)
  let ?st1 = "fold (set_collectionPath cp) (filter (\<lambda>a. f (heap st a)) ps) st"
  let ?st1' = "fold (set_collectionPath cp) (filter (\<lambda>a. f (heap st' a)) ps) st'"
  have h1: "\<forall>a\<in>S. heap ?st1 a = heap ?st1' a"
    using assms(1) by (simp add: heap_fold_set c)
  have r: "filter (\<lambda>a. \<not> f (heap ?st1 a)) ps = filter (\<lambda>a. \<not> f (heap ?st1' a)) ps"
    using h1 assms(2) by (intro filter_cong) auto
  show "fst (getCollection st ps cp sel) = fst (getCollection st' ps cp sel)"
    unfolding getCollection_def Let_def f_def[symmetric] using c r by simp
  show "\<forall>a\<in>S. heap (snd (getCollection st ps cp sel)) a = heap (snd (getCollection st' ps cp sel)) a"
    unfolding getCollection_def Let_def f_def[symmetric] using h1 r
    by (simp add: heap_fold_set[of "''/''"])
qed

lemma collections_forEach_agree:
  assumes "\<forall>a\<in>S. heap st a = heap st' a" and "set cd \<subseteq> S"
  shows "lr_posts (collections_forEach d opts tags cs cd st) =
           lr_posts (collections_forEach d opts tags cs cd st') \<and>
         lr_calls (collections_forEach d opts tags cs cd st) =
           lr_calls (collections_forEach d opts tags cs cd st') \<and>
         lr_emitted (collections_forEach d opts tags cs cd st) =
           lr_emitted (collections_forEach d opts tags cs cd st') \<and>
         (\<forall>a\<in>S. heap (lr_state (collections_forEach d opts tags cs cd st)) a =
                 heap (lr_state (collections_forEach d opts tags cs cd st')) a)"
  using assms
proof (induction cs arbitrary: cd st st')
  case Nil
  then show ?case by simp
next
  case (Cons c cs)
  let ?g = "getCollection st cd (c_path c) (c_selector c)"
  let ?g' = "getCollection st' cd (c_path c) (c_selector c)"
  have g: "fst ?g = fst ?g'" and h: "\<forall>a\<in>S. heap (snd ?g) a = heap (snd ?g') a"
    using getCollection_agree[OF Cons.prems] by blast+
  have sub: "set (residual (fst ?g')) \<subseteq> S" "set (primary (fst ?g')) \<subseteq> S"
    using getCollection_subsets[of st' cd "c_path c" "c_selector c"] Cons.prems(2) by auto
  have cc: "createCollection d opts (heap (snd ?g)) (primary (fst ?g')) tags (Some (c_path c)) =
            createCollection d opts (heap (snd ?g')) (primary (fst ?g')) tags (Some (c_path c))"
    using h sub(2) by (intro createCollection_cong) auto
  from Cons.IH[OF h sub(1)] show ?case
    unfolding collections_forEach_Cons Let_def g
    by (simp add: cc)
qed

lemma fold_set_content_kept:
  "\<exists>p. heap (fold (set_collectionPath v) as st) a = (heap st a)\<lparr>collectionPath := p\<rparr>"
proof (cases "a \<in> set as")
  case True
  then show ?thesis by (auto simp: heap_fold_set)
next
  case False
  then have "heap (fold (set_collectionPath v) as st) a =
             (heap st a)\<lparr>collectionPath := collectionPath (heap st a)\<rparr>"
    by (simp add: heap_fold_set)
  then show ?thesis by blast
qed

lemma getCollection_content_kept:
  "\<exists>p. heap (snd (getCollection st ps cp sel)) a = (heap st a)\<lparr>collectionPath := p\<rparr>"
proof -
  define f where "f = (case sel of None \<Rightarrow> (\<lambda>node. False) | Some s \<Rightarrow> s)"
  define st1 where "st1 = fold (set_collectionPath cp) (filter (\<lambda>a. f (heap st a)) ps) st"
  obtain p where p: "heap st1 a = (heap st a)\<lparr>collectionPath := p\<rparr>"
    unfolding st1_def using fold_set_content_kept by blast
  obtain q where q: "heap (fold (set_collectionPath ''/'') (filter (\<lambda>a. \<not> f (heap st1 a)) ps) st1) a =
                     (heap st1 a)\<lparr>collectionPath := q\<rparr>"
    using fold_set_content_kept by blast
  have "heap (snd (getCollection st ps cp sel)) a = (heap st a)\<lparr>collectionPath := q\<rparr>"
    unfolding getCollection_def Let_def f_def[symmetric] st1_def[symmetric]
    using p q by simp
  then show ?thesis by blast
qed

lemma collections_forEach_content_kept:
  "\<exists>p. heap (lr_state (collections_forEach d opts tags cs cd st)) a =
        (heap st a)\<lparr>collectionPath := p\<rparr>"
proof (induction cs arbitrary: cd st)
  case Nil
  have "heap st a = (heap st a)\<lparr>collectionPath := collectionPath (heap st a)\<rparr>" by simp
  then have "\<exists>p. heap st a = (heap st a)\<lparr>collectionPath := p\<rparr>" by (rule exI)
  then show ?case by simp
next
  case (Cons c cs)
  let ?g = "getCollection st cd (c_path c) (c_selector c)"
  obtain p where p: "heap (snd ?g) a = (heap st a)\<lparr>collectionPath := p\<rparr>"
    using getCollection_content_kept by blast
  obtain q where q: "heap (lr_state (collections_forEach d opts tags cs (residual (fst ?g)) (snd ?g))) a =
                     (heap (snd ?g) a)\<lparr>collectionPath := q\<rparr>"
    using Cons.IH by blast
  have "heap (lr_state (collections_forEach d opts tags (c # cs) cd st)) a =
        (heap st a)\<lparr>collectionPath := q\<rparr>"
    unfolding collections_forEach_Cons Let_def using p q by simp
  then show ?case by blast
qed

lemma getCollection_restamp:
  assumes c: "readsContentOnly (selectorOf c)"
    and rel: "\<forall>a\<in>set ps. \<exists>p. heap st' a = (heap st a)\<lparr>collectionPath := p\<rparr>"
  shows "fst (getCollection st' ps cp (c_selector c)) = fst (getCollection st ps cp (c_selector c))"
    and "\<forall>a\<in>set ps. heap (snd (getCollection st' ps cp (c_selector c))) a =
                     heap (snd (getCollection st ps cp (c_selector c))) a"
proof -
  have s: "selectorOf c (heap st' a) = selectorOf c (heap st a)" if "a \<in> set ps" for a
  proof -
    from rel that obtain p where "heap st' a = (heap st a)\<lparr>collectionPath := p\<rparr>" by blast
    then show ?thesis using c by (simp add: readsContentOnly_def)
  qed
  have f1: "filter (\<lambda>a. selectorOf c (heap st' a)) ps = filter (\<lambda>a. selectorOf c (heap st a)) ps"
    and f2: "filter (\<lambda>a. \<not> selectorOf c (heap st' a)) ps = filter (\<lambda>a. \<not> selectorOf c (heap st a)) ps"
    using s by (auto intro!: filter_cong)
  show "fst (getCollection st' ps cp (c_selector c)) = fst (getCollection st ps cp (c_selector c))"
    by (simp add: getCollection_content[OF c] f1 f2)
  show "\<forall>a\<in>set ps. heap (snd (getCollection st' ps cp (c_selector c))) a =
                    heap (snd (getCollection st ps cp (c_selector c))) a"
  proof
    fix a assume a: "a \<in> set ps"
    from rel a obtain p where p: "heap st' a = (heap st a)\<lparr>collectionPath := p\<rparr>" by blast
    show "heap (snd (getCollection st' ps cp (c_selector c))) a =
          heap (snd (getCollection st ps cp (c_selector c))) a"
      using a s[OF a] by (simp add: getCollection_heap[OF c] p)
  qed
qed

lemma collections_forEach_rerun:
  assumes c: "\<forall>c\<in>set cs. readsContentOnly (selectorOf c)"
    and r: "r = collections_forEach d opts tags cs cd st"
    and r': "r' = collections_forEach d opts tags cs cd (lr_state r)"
  shows "lr_posts r' = lr_posts r \<and> lr_calls r' = lr_calls r \<and> lr_emitted r' = lr_emitted r \<and>
         (\<forall>a\<in>set cd. heap (lr_state r') a = heap (lr_state r) a)"
proof (cases cs)
  case Nil
  then show ?thesis by (simp add: r r')
next
  case (Cons c0 cs0)
  have c0: "readsContentOnly (selectorOf c0)" using c Cons by simp
  let ?g = "getCollection st cd (c_path c0) (c_selector c0)"
  let ?g' = "getCollection (lr_state r) cd (c_path c0) (c_selector c0)"
  have rel: "\<forall>a\<in>set cd. \<exists>p. heap (lr_state r) a = (heap st a)\<lparr>collectionPath := p\<rparr>"
    unfolding r using collections_forEach_content_kept by blast
  have g: "fst ?g' = fst ?g" and h: "\<forall>a\<in>set cd. heap (snd ?g') a = heap (snd ?g) a"
    using getCollection_restamp[OF c0 rel] by blast+
  have sub: "set (residual (fst ?g)) \<subseteq> set cd" "set (primary (fst ?g)) \<subseteq> set cd"
    using getCollection_subsets[of st cd "c_path c0" "c_selector c0"] by auto
  have cc: "createCollection d opts (heap (snd ?g')) (primary (fst ?g)) tags (Some (c_path c0)) =
            createCollection d opts (heap (snd ?g)) (primary (fst ?g)) tags (Some (c_path c0))"
    using h sub(2) by (intro createCollection_cong) auto
  have e: "r = collections_forEach d opts tags (c0 # cs0) cd st"
    and e': "r' = collections_forEach d opts tags (c0 # cs0) cd (lr_state r)"
    by (simp_all add: r r' Cons)
  have r1: "r = (let rr = collections_forEach d opts tags cs0 (residual (fst ?g)) (snd ?g)
                 in rr\<lparr>lr_calls := (Some (c_path c0), primary (fst ?g)) # lr_calls rr,
                       lr_emitted := andThen (createCollection d opts (heap (snd ?g)) (primary (fst ?g))
                                    tags (Some (c_path c0))) (lr_emitted rr)\<rparr>)"
    unfolding e collections_forEach_Cons Let_def ..
  have r2: "r' = (let rr = collections_forEach d opts tags cs0 (residual (fst ?g)) (snd ?g')
                 in rr\<lparr>lr_calls := (Some (c_path c0), primary (fst ?g)) # lr_calls rr,
                       lr_emitted := andThen (createCollection d opts (heap (snd ?g)) (primary (fst ?g))
                                    tags (Some (c_path c0))) (lr_emitted rr)\<rparr>)"
    unfolding e' collections_forEach_Cons Let_def g cc ..
  from collections_forEach_agree[OF h sub(1), of d opts tags cs0]
  show ?thesis
    by (simp add: r1 r2 Let_def)
qed

section \<open>Fetch failure\<close>

text \<open>
  Claim C8. When the fetch result carries errors, \<^verbatim>\<open>createPages\<close> throws one error built
  from them before anything else happens: the sink \<^verbatim>\<open>createPage\<close> has not been called
  (no route is created), \<^verbatim>\<open>createCollection\<close> has not been called, and the state of the
  post nodes is the one the run started with.
\<close>

theorem fetch_failure_aborts:
  "q_errors result = Some es \<Longrightarrow>
   createPages d themeOpts result st =
     \<lparr>created = [], thrown = Some (FetchError es), calls = [], final = st\<rparr>"
  by (simp add: createPages_def)

theorem fetch_failure_aborts_witness:
  "q_errors ((example_result [0] [] 3)\<lparr>q_errors := Some [''timeout'']\<rparr>) = Some [''timeout''] \<and>
   createPages example_deps (example_options [])
       ((example_result [0] [] 3)\<lparr>q_errors := Some [''timeout'']\<rparr>)
       (example_state [example_post ''1'' ''a'' None]) =
     \<lparr>created = [], thrown = Some (FetchError [''timeout'']), calls = [],
      final = example_state [example_post ''1'' ''a'' None]\<rparr>"
  using fetch_failure_aborts[of "(example_result [0] [] 3)\<lparr>q_errors := Some [''timeout'']\<rparr>"
      "[''timeout'']" example_deps "example_options []"
      "example_state [example_post ''1'' ''a'' None]"]
  by (simp add: example_result_def)

section \<open>Post pages\<close>

lemma createPostPages_routes:
  "createPostPages d opts h posts tags tmpl amp =
     (map (\<lambda>i. \<lparr>path = resolveUrl d (basePath opts)
                          (lookupPath (pathsOf h posts) (node_id (h (posts ! i))))
                          (Some (slug (h (posts ! i)))) (url (h (posts ! i))) @ amp,
                 component = tmpl,
                 ctx = PostContext
                          \<lparr>pc_slug = slug (h (posts ! i)),
                           pc_prev = prevNodes h posts ! i,
                           pc_next = nextNodes h posts ! i,
                           pc_tag = (case primary_tag (h (posts ! i)) of
                                       None \<Rightarrow> ''''
                                     | Some s \<Rightarrow> if s \<noteq> '''' then s else ''''),
                           pc_limit = 3,
                           pc_skip = 0,
                           primaryTagCount = primaryTagCountOf (h (posts ! i)) tags,
                           pc_collectionPaths = pathsOf h posts\<rparr>\<rparr>)
               [0..<length posts], None)"
  by (simp add: createPostPages_def getCollectionPaths_own_ids Let_def)

lemma prevNodes_nth:
  "i < length posts \<Longrightarrow>
   prevNodes h posts ! i = (if i = 0 then '''' else slug (h (posts ! (i - 1))))"
proof (cases i)
  case 0
  then show ?thesis by (simp add: prevNodes_def)
next
  case (Suc k)
  assume "i < length posts"
  with Suc have k: "k < length (butlast posts)" by simp
  then have "butlast posts ! k = posts ! k" by (rule nth_butlast)
  with Suc k show ?thesis by (simp add: prevNodes_def)
qed

lemma nextNodes_nth:
  "i < length posts \<Longrightarrow>
   nextNodes h posts ! i = (if i = length posts - 1 then '''' else slug (h (posts ! (i + 1))))"
  by (auto simp: nextNodes_def nth_append)

text \<open>
  Claim C4. \<^verbatim>\<open>createPostPages\<close> never throws and creates one route per post, in the
  order of the list. The context of the route of post \<open>i\<close> has \<^verbatim>\<open>prev\<close> equal to the
  slug of post \<open>i - 1\<close>, or the empty string when \<open>i = 0\<close>, and \<^verbatim>\<open>next\<close> equal to the slug
  of post \<open>i + 1\<close>, or the empty string when \<open>i\<close> is the last index.
\<close>

theorem prev_next_sentinels:
  assumes "i < length posts"
  shows "snd (createPostPages d opts h posts tags tmpl amp) = None \<and>
         length (fst (createPostPages d opts h posts tags tmpl amp)) = length posts \<and>
         map_option pc_slug (postContextOf (fst (createPostPages d opts h posts tags tmpl amp) ! i)) =
           Some (slug (h (posts ! i))) \<and>
         map_option pc_prev (postContextOf (fst (createPostPages d opts h posts tags tmpl amp) ! i)) =
           Some (if i = 0 then '''' else slug (h (posts ! (i - 1)))) \<and>
         map_option pc_next (postContextOf (fst (createPostPages d opts h posts tags tmpl amp) ! i)) =
           Some (if i = length posts - 1 then '''' else slug (h (posts ! (i + 1))))"
  using assms
  by (simp add: createPostPages_routes prevNodes_nth nextNodes_nth postContextOf_def)

text \<open>
  The three posts \<open>[A, B, C]\<close> with slugs \<open>a\<close>, \<open>b\<close>, \<open>c\<close>: B has \<open>prev = a\<close> and
  \<open>next = c\<close>, A has an empty \<open>prev\<close>, C has an empty \<open>next\<close>.
\<close>

theorem prev_next_sentinels_witness:
  "(1::nat) < length [0::nat, 1, 2] \<and>
   map_option pc_prev (postContextOf (fst (createPostPages example_deps
        \<lparr>basePath = ''/'', iScrollEnabled = False, postsPerPage = 3\<rparr>
        (heap (example_state [example_post ''1'' ''a'' None, example_post ''2'' ''b'' None,
                              example_post ''3'' ''c'' None]))
        [0, 1, 2] [] PostTemplate '''') ! 1)) = Some ''a'' \<and>
   map_option pc_next (postContextOf (fst (createPostPages example_deps
        \<lparr>basePath = ''/'', iScrollEnabled = False, postsPerPage = 3\<rparr>
        (heap (example_state [example_post ''1'' ''a'' None, example_post ''2'' ''b'' None,
                              example_post ''3'' ''c'' None]))
        [0, 1, 2] [] PostTemplate '''') ! 1)) = Some ''c'' \<and>
   map_option pc_prev (postContextOf (fst (createPostPages example_deps
        \<lparr>basePath = ''/'', iScrollEnabled = False, postsPerPage = 3\<rparr>
        (heap (example_state [example_post ''1'' ''a'' None, example_post ''2'' ''b'' None,
                              example_post ''3'' ''c'' None]))
        [0, 1, 2] [] PostTemplate '''') ! 0)) = Some '''' \<and>
   map_option pc_next (postContextOf (fst (createPostPages example_deps
        \<lparr>basePath = ''/'', iScrollEnabled = False, postsPerPage = 3\<rparr>
        (heap (example_state [example_post ''1'' ''a'' None, example_post ''2'' ''b'' None,
                              example_post ''3'' ''c'' None]))
        [0, 1, 2] [] PostTemplate '''') ! 2)) = Some ''''"
  using prev_next_sentinels[of 1 "[0, 1, 2]" example_deps
          "\<lparr>basePath = ''/'', iScrollEnabled = False, postsPerPage = 3\<rparr>"
          "heap (example_state [example_post ''1'' ''a'' None, example_post ''2'' ''b'' None,
                              example_post ''3'' ''c'' None])" "[]" PostTemplate "''''"]
        prev_next_sentinels[of 0 "[0, 1, 2]" example_deps
          "\<lparr>basePath = ''/'', iScrollEnabled = False, postsPerPage = 3\<rparr>"
          "heap (example_state [example_post ''1'' ''a'' None, example_post ''2'' ''b'' None,
                              example_post ''3'' ''c'' None])" "[]" PostTemplate "''''"]
        prev_next_sentinels[of 2 "[0, 1, 2]" example_deps
          "\<lparr>basePath = ''/'', iScrollEnabled = False, postsPerPage = 3\<rparr>"
          "heap (example_state [example_post ''1'' ''a'' None, example_post ''2'' ''b'' None,
                              example_post ''3'' ''c'' None])" "[]" PostTemplate "''''"]
  by (simp add: example_state_def example_post_def)

text \<open>
  Claim C7. The \<^verbatim>\<open>primaryTagCount\<close> in the context of a post's route is the
  \<^verbatim>\<open>postCount\<close> of the first tag of the tag list whose slug is the slug of the post's
  primary tag; it is 0 when the post has no primary tag, when no tag of the list has that
  slug, and when the count of the tag found is \<^verbatim>\<open>null\<close>.
\<close>

theorem primary_tag_count_fallback:
  assumes "i < length posts"
  shows "map_option primaryTagCount
           (postContextOf (fst (createPostPages d opts h posts tags tmpl amp) ! i)) =
         Some (case primary_tag (h (posts ! i)) of
                 None \<Rightarrow> 0
               | Some s \<Rightarrow> (case find (\<lambda>t. slug t = s) tags of
                              None \<Rightarrow> 0
                            | Some t \<Rightarrow> (case postCount t of None \<Rightarrow> 0 | Some c \<Rightarrow> c)))"
proof -
  have none: "find (\<lambda>t. False) tags = None" by (induction tags) simp_all
  show ?thesis
    using assms
    by (simp add: createPostPages_routes postContextOf_def primaryTagCountOf_def none
          split: option.splits)
qed

text \<open>
  Four posts against the tags \<open>news\<close> (7 posts) and \<open>misc\<close> (count \<^verbatim>\<open>null\<close>): a post
  tagged \<open>news\<close>, a post without primary tag, a post whose primary tag is not in the list,
  and a post tagged \<open>misc\<close>.
\<close>

theorem primary_tag_count_fallback_witness:
  "(3::nat) < length [0::nat, 1, 2, 3] \<and>
   map (\<lambda>i. map_option primaryTagCount (postContextOf (fst (createPostPages example_deps
        \<lparr>basePath = ''/'', iScrollEnabled = False, postsPerPage = 3\<rparr>
        (heap (example_state [example_post ''1'' ''a'' (Some ''news''), example_post ''2'' ''b'' None,
                              example_post ''3'' ''c'' (Some ''gone''),
                              example_post ''4'' ''d'' (Some ''misc'')]))
        [0, 1, 2, 3]
        [example_taxonomy ''news'' (Some 7), example_taxonomy ''misc'' None]
        PostTemplate '''') ! i))) [0, 1, 2, 3] = [Some 7, Some 0, Some 0, Some 0]"
  using primary_tag_count_fallback[of 0 "[0, 1, 2, 3]" example_deps
          "\<lparr>basePath = ''/'', iScrollEnabled = False, postsPerPage = 3\<rparr>"
          "heap (example_state [example_post ''1'' ''a'' (Some ''news''), example_post ''2'' ''b'' None,
                              example_post ''3'' ''c'' (Some ''gone''),
                              example_post ''4'' ''d'' (Some ''misc'')])"
          "[example_taxonomy ''news'' (Some 7), example_taxonomy ''misc'' None]" PostTemplate "''''"]
        primary_tag_count_fallback[of 1 "[0, 1, 2, 3]" example_deps
          "\<lparr>basePath = ''/'', iScrollEnabled = False, postsPerPage = 3\<rparr>"
          "heap (example_state [example_post ''1'' ''a'' (Some ''news''), example_post ''2'' ''b'' None,
                              example_post ''3'' ''c'' (Some ''gone''),
                              example_post ''4'' ''d'' (Some ''misc'')])"
          "[example_taxonomy ''news'' (Some 7), example_taxonomy ''misc'' None]" PostTemplate "''''"]
        primary_tag_count_fallback[of 2 "[0, 1, 2, 3]" example_deps
          "\<lparr>basePath = ''/'', iScrollEnabled = False, postsPerPage = 3\<rparr>"
          "heap (example_state [example_post ''1'' ''a'' (Some ''news''), example_post ''2'' ''b'' None,
                              example_post ''3'' ''c'' (Some ''gone''),
                              example_post ''4'' ''d'' (Some ''misc'')])"
          "[example_taxonomy ''news'' (Some 7), example_taxonomy ''misc'' None]" PostTemplate "''''"]
        primary_tag_count_fallback[of 3 "[0, 1, 2, 3]" example_deps
          "\<lparr>basePath = ''/'', iScrollEnabled = False, postsPerPage = 3\<rparr>"
          "heap (example_state [example_post ''1'' ''a'' (Some ''news''), example_post ''2'' ''b'' None,
                              example_post ''3'' ''c'' (Some ''gone''),
                              example_post ''4'' ''d'' (Some ''misc'')])"
          "[example_taxonomy ''news'' (Some 7), example_taxonomy ''misc'' None]" PostTemplate "''''"]
  by (simp add: example_state_def example_post_def example_taxonomy_def)

section \<open>The id to collection path lookup\<close>





section \<open>Index pages\<close>

declare show_nat.simps [simp del]

lemma ceiling_nat_div:
  assumes "0 < p"
  shows "nat \<lceil>real t / real p\<rceil> = (t + p - 1) div p"
proof -
  define q where "q = (t + p - 1) div p"
  have 1: "q * p \<le> t + p - 1" by (simp add: q_def)
  have 2: "t + p - 1 < p + q * p"
    unfolding q_def using assms by (rule dividend_less_div_times)
  from 2 assms have "t \<le> q * p" by linarith
  then have "real t \<le> real (q * p)" by (rule of_nat_mono)
  then have up: "real t / real p \<le> real q"
    using assms by (simp add: pos_divide_le_eq)
  from 1 assms have "q * p + 1 \<le> t + p" by linarith
  then have "real (q * p + 1) \<le> real (t + p)" by (rule of_nat_mono)
  then have "(real q - 1) * real p < real t"
    by (simp add: algebra_simps)
  then have lo: "real q - 1 < real t / real p"
    using assms by (simp add: pos_less_divide_eq)
  have "\<lceil>real t / real p\<rceil> = int q"
    by (rule ceiling_unique) (use lo up in simp_all)
  then show ?thesis by (simp add: q_def)
qed





section \<open>Partitioning into collections\<close>

lemma createPages_final:
  assumes "q_errors result = None"
  shows "final (createPages d themeOpts result st) =
           lr_state (collections_forEach d (createOptionsOf themeOpts (q_data result))
                       (q_tags (q_data result)) (collectionsOf themeOpts)
                       (q_posts (q_data result)) st)"
  using assms by (simp add: createPages_def Let_def)

lemma createPages_calls:
  assumes "q_errors result = None"
  shows "calls (createPages d themeOpts result st) =
           lr_calls (collections_forEach d (createOptionsOf themeOpts (q_data result))
                       (q_tags (q_data result)) (collectionsOf themeOpts)
                       (q_posts (q_data result)) st) @
           [(None, lr_posts (collections_forEach d (createOptionsOf themeOpts (q_data result))
                       (q_tags (q_data result)) (collectionsOf themeOpts)
                       (q_posts (q_data result)) st))]"
  using assms by (simp add: createPages_def Let_def collections_forEach_total)

lemma collections_forEach_paths:
  "map fst (lr_calls (collections_forEach d opts tags cs cd st)) = map (\<lambda>c. Some (c_path c)) cs"
proof (induction cs arbitrary: cd st)
  case Nil
  show ?case by simp
next
  case (Cons c cs)
  show ?case
    unfolding collections_forEach_Cons Let_def by (simp add: Cons.IH)
qed

lemma collections_forEach_partition:
  "\<forall>c\<in>set cs. readsContentOnly (selectorOf c) \<Longrightarrow>
   mset (concat (map snd (lr_calls (collections_forEach d opts tags cs cd st)))) +
   mset (lr_posts (collections_forEach d opts tags cs cd st)) = mset cd"
proof (induction cs arbitrary: cd st)
  case Nil
  show ?case by simp
next
  case (Cons c cs)
  then have c: "readsContentOnly (selectorOf c)" and cs: "\<forall>c\<in>set cs. readsContentOnly (selectorOf c)"
    by simp_all
  show ?case
    unfolding collections_forEach_Cons Let_def
    by (simp add: getCollection_content[OF c] Cons.IH[OF cs] add.assoc)
qed

text \<open>
  Claim C1, as the code has it. Let the fetch succeed and let every configured selector
  read only the content of a post. The post lists handed to \<^verbatim>\<open>createCollection\<close>, one
  per configured collection in configuration order and then the default collection,
  together hold every post of the original list exactly as often as the original list does
  (once, for a list without repetition): no post is lost and none is in two collections.
  When at least one collection is configured, every post ends the run with
  \<^verbatim>\<open>collectionPath\<close> equal to the path of the earliest configured collection whose
  selector accepts it, or to \<^verbatim>\<open>/\<close> when none does. When no collection is configured,
  \<^verbatim>\<open>getCollection\<close> is never called and the run leaves every node as it found it.
\<close>

theorem partition_complete_and_exclusive:
  assumes "q_errors result = None"
    and "\<forall>c\<in>set (collectionsOf themeOpts). readsContentOnly (selectorOf c)"
  shows "mset (concat (map snd (calls (createPages d themeOpts result st)))) =
           mset (q_posts (q_data result)) \<and>
         map fst (calls (createPages d themeOpts result st)) =
           map (\<lambda>c. Some (c_path c)) (collectionsOf themeOpts) @ [None] \<and>
         (collectionsOf themeOpts \<noteq> [] \<longrightarrow>
            (\<forall>a\<in>set (q_posts (q_data result)).
               collectionPath (heap (final (createPages d themeOpts result st)) a) =
                 Some (assignedPath (collectionsOf themeOpts) (heap st a)))) \<and>
         (collectionsOf themeOpts = [] \<longrightarrow> final (createPages d themeOpts result st) = st)"
proof (intro conjI impI)
  show "mset (concat (map snd (calls (createPages d themeOpts result st)))) =
           mset (q_posts (q_data result))"
    using collections_forEach_partition[OF assms(2)]
    by (simp add: createPages_calls[OF assms(1)])
  show "map fst (calls (createPages d themeOpts result st)) =
           map (\<lambda>c. Some (c_path c)) (collectionsOf themeOpts) @ [None]"
    by (simp add: createPages_calls[OF assms(1)] collections_forEach_paths)
  show "\<forall>a\<in>set (q_posts (q_data result)).
               collectionPath (heap (final (createPages d themeOpts result st)) a) =
                 Some (assignedPath (collectionsOf themeOpts) (heap st a))"
    if "collectionsOf themeOpts \<noteq> []"
    using that
    by (simp add: createPages_final[OF assms(1)] collections_forEach_heap[OF assms(2)])
  show "final (createPages d themeOpts result st) = st" if "collectionsOf themeOpts = []"
    using that by (simp add: createPages_final[OF assms(1)])
qed

text \<open>
  Five posts, the second and the fourth tagged \<open>feature\<close>, and the collection
  \<^verbatim>\<open>/features/\<close> that selects this tag.
\<close>

theorem partition_complete_and_exclusive_witness:
  "q_errors (example_result [0, 1, 2, 3, 4] [] 3) = None \<and>
   mset (concat (map snd (calls (createPages example_deps
       (example_options [\<lparr>c_path = ''/features/'',
                          c_selector = Some (\<lambda>node. primary_tag node = Some ''feature'')\<rparr>])
       (example_result [0, 1, 2, 3, 4] [] 3)
       (example_state [example_post ''1'' ''a'' None, example_post ''2'' ''b'' (Some ''feature''),
                       example_post ''3'' ''c'' None, example_post ''4'' ''d'' (Some ''feature''),
                       example_post ''5'' ''e'' None]))))) = mset [0, 1, 2, 3, 4] \<and>
   map (\<lambda>a. collectionPath (heap (final (createPages example_deps
       (example_options [\<lparr>c_path = ''/features/'',
                          c_selector = Some (\<lambda>node. primary_tag node = Some ''feature'')\<rparr>])
       (example_result [0, 1, 2, 3, 4] [] 3)
       (example_state [example_post ''1'' ''a'' None, example_post ''2'' ''b'' (Some ''feature''),
                       example_post ''3'' ''c'' None, example_post ''4'' ''d'' (Some ''feature''),
                       example_post ''5'' ''e'' None]))) a)) [0, 1, 2, 3, 4] =
     [Some ''/'', Some ''/features/'', Some ''/'', Some ''/features/'', Some ''/'']"
proof -
  let ?cs = "[\<lparr>c_path = ''/features/'',
              c_selector = Some (\<lambda>node. primary_tag node = Some ''feature'')\<rparr>]"
  let ?st = "example_state [example_post ''1'' ''a'' None, example_post ''2'' ''b'' (Some ''feature''),
                       example_post ''3'' ''c'' None, example_post ''4'' ''d'' (Some ''feature''),
                       example_post ''5'' ''e'' None]"
  have ok: "q_errors (example_result [0, 1, 2, 3, 4] [] 3) = None"
    by (simp add: example_result_def)
  have cs: "collectionsOf (example_options ?cs) = ?cs"
    by (simp add: collectionsOf_def example_options_def)
  have pure: "\<forall>c\<in>set (collectionsOf (example_options ?cs)). readsContentOnly (selectorOf c)"
    by (simp add: cs selectorOf_def readsContentOnly_def)
  note t = partition_complete_and_exclusive[OF ok pure, of example_deps ?st]
  from t have m: "mset (concat (map snd (calls (createPages example_deps (example_options ?cs)
                    (example_result [0, 1, 2, 3, 4] [] 3) ?st)))) = mset [0, 1, 2, 3, 4]"
    by (simp add: example_result_def)
  from t have "\<forall>a\<in>set [0, 1, 2, 3, 4].
                 collectionPath (heap (final (createPages example_deps (example_options ?cs)
                    (example_result [0, 1, 2, 3, 4] [] 3) ?st)) a) =
                 Some (assignedPath ?cs (heap ?st a))"
    unfolding cs by (simp add: example_result_def)
  then have p: "map (\<lambda>a. collectionPath (heap (final (createPages example_deps (example_options ?cs)
                    (example_result [0, 1, 2, 3, 4] [] 3) ?st)) a)) [0, 1, 2, 3, 4] =
     [Some ''/'', Some ''/features/'', Some ''/'', Some ''/features/'', Some ''/'']"
    by (simp add: assignedPath_def selectorOf_def example_state_def example_post_def)
  show ?thesis by (intro conjI ok m p)
qed

text \<open>
  The claim as stated fails when no collection is configured: the post matches no selector,
  and its \<^verbatim>\<open>collectionPath\<close> is not \<^verbatim>\<open>/\<close> after the run but still undefined.
\<close>

theorem unconfigured_run_assigns_no_path:
  "collectionPath (heap (final (createPages example_deps (example_options [])
       (example_result [0] [] 3) (example_state [example_post ''1'' ''a'' None]))) 0) = None"
  by (simp add: createPages_def example_result_def example_options_def collectionsOf_def
        example_state_def example_post_def Let_def)

lemma getCollection_frame:
  "a \<notin> set ps \<Longrightarrow> heap (snd (getCollection st ps cp sel)) a = heap st a"
  by (simp add: getCollection_def Let_def heap_fold_set)

lemma collections_forEach_frame:
  "a \<notin> set cd \<Longrightarrow> heap (lr_state (collections_forEach d opts tags cs cd st)) a = heap st a"
proof (induction cs arbitrary: cd st)
  case Nil
  show ?case by simp
next
  case (Cons c cs)
  have "a \<notin> set (residual (fst (getCollection st cd (c_path c) (c_selector c))))"
    using Cons.prems getCollection_subsets(2)[of st cd "c_path c" "c_selector c"] by blast
  from Cons.IH[OF this] Cons.prems show ?case
    unfolding collections_forEach_Cons Let_def
    by (simp add: getCollection_frame)
qed

lemma collections_forEach_emitted:
  "\<forall>c\<in>set cs. readsContentOnly (selectorOf c) \<Longrightarrow>
   fst (lr_emitted (collections_forEach d opts tags cs cd st)) =
     concat (map (\<lambda>call. fst (createCollection d opts
                                (heap (lr_state (collections_forEach d opts tags cs cd st)))
                                (snd call) tags (fst call)))
               (lr_calls (collections_forEach d opts tags cs cd st)))"
proof (induction cs arbitrary: cd st)
  case Nil
  show ?case by simp
next
  case (Cons c cs)
  then have c: "readsContentOnly (selectorOf c)" and cs: "\<forall>c\<in>set cs. readsContentOnly (selectorOf c)"
    by simp_all
  let ?g = "getCollection st cd (c_path c) (c_selector c)"
  let ?r = "collections_forEach d opts tags cs (residual (fst ?g)) (snd ?g)"
  have disj: "a \<notin> set (residual (fst ?g))" if "a \<in> set (primary (fst ?g))" for a
    using that by (simp add: getCollection_content[OF c])
  have same: "\<forall>a\<in>set (primary (fst ?g)). heap (lr_state ?r) a = heap (snd ?g) a"
    using disj collections_forEach_frame by blast
  have first: "createCollection d opts (heap (snd ?g)) (primary (fst ?g)) tags (Some (c_path c)) =
               createCollection d opts (heap (lr_state ?r)) (primary (fst ?g)) tags (Some (c_path c))"
    using same by (intro createCollection_cong) simp
  show ?case
    unfolding collections_forEach_Cons Let_def
    by (simp add: andThen_def createCollection_total Cons.IH[OF cs] first)
qed

lemma createPages_calls_nth:
  assumes "q_errors result = None"
    and "\<forall>c\<in>set (collectionsOf themeOpts). readsContentOnly (selectorOf c)"
  shows "length (calls (createPages d themeOpts result st)) = length (collectionsOf themeOpts) + 1"
    and "k < length (collectionsOf themeOpts) \<Longrightarrow>
         calls (createPages d themeOpts result st) ! k =
           (Some (c_path (collectionsOf themeOpts ! k)),
            filter (\<lambda>a. firstMatch (collectionsOf themeOpts) (heap st a) = Some k)
              (q_posts (q_data result)))"
    and "calls (createPages d themeOpts result st) ! length (collectionsOf themeOpts) =
           (None, filter (\<lambda>a. firstMatch (collectionsOf themeOpts) (heap st a) = None)
                    (q_posts (q_data result)))"
  by (simp_all add: createPages_calls[OF assms(1)] collections_forEach_calls[OF assms(2)]
        collections_forEach_posts[OF assms(2)] nth_append)

lemma createOrdinaryPages_component:
  "r \<in> set (createOrdinaryPages d opts pages tmpl) \<Longrightarrow> component r = tmpl"
  by (auto simp: createOrdinaryPages_def)

lemma paginate_component:
  "r \<in> set (paginate t p tmpl pathPrefix pass) \<Longrightarrow>
   component r = tmpl \<and> (\<exists>pg. ctx r = PaginatedContext pass pg)"
  by (auto simp: paginate_def)

lemma createTaxonomyPages_component:
  "r \<in> set (fst (createTaxonomyPages d opts h taxonomy postIds tmpl allPosts)) \<Longrightarrow>
   component r = tmpl"
proof (induction taxonomy)
  case Nil
  then show ?case by simp
next
  case (Cons node taxonomy)
  then show ?case
    by (auto simp: Let_def andThen_def split: sum.splits dest: paginate_component)
qed

lemma createCollection_post_routes:
  "filter (\<lambda>r. component r = PostTemplate) (fst (createCollection d opts h ps tags cp)) =
   fst (createPostPages d opts h ps tags PostTemplate '''')"
proof -
  have idx: "filter (\<lambda>r. component r = PostTemplate)
               (createIndexPage d opts ps ids IndexTemplate cp) = []" for ids
    by (auto simp: filter_empty_conv createIndexPage_def Let_def dest: paginate_component)
  have posts: "filter (\<lambda>r. component r = PostTemplate)
                 (fst (createPostPages d opts h ps tags PostTemplate '''')) =
               fst (createPostPages d opts h ps tags PostTemplate '''')"
    by (simp add: createPostPages_routes filter_map o_def)
  show ?thesis
    by (simp add: createCollection_def andThen_def createPostPages_total idx posts)
qed

lemma createPages_created:
  assumes "q_errors result = None"
  shows "\<exists>taxonomyRoutes.
           created (createPages d themeOpts result st) =
             createOrdinaryPages d (createOptionsOf themeOpts (q_data result))
               (q_pages (q_data result)) PageTemplate @
             fst (lr_emitted (collections_forEach d (createOptionsOf themeOpts (q_data result))
                       (q_tags (q_data result)) (collectionsOf themeOpts)
                       (q_posts (q_data result)) st)) @
             fst (createCollection d (createOptionsOf themeOpts (q_data result))
                    (heap (final (createPages d themeOpts result st)))
                    (lr_posts (collections_forEach d (createOptionsOf themeOpts (q_data result))
                       (q_tags (q_data result)) (collectionsOf themeOpts)
                       (q_posts (q_data result)) st))
                    (q_tags (q_data result)) None) @
             taxonomyRoutes \<and>
           (\<forall>r\<in>set taxonomyRoutes. component r = TagTemplate \<or> component r = AuthorTemplate)"
proof -
  let ?opts = "createOptionsOf themeOpts (q_data result)"
  let ?loop = "collections_forEach d ?opts (q_tags (q_data result)) (collectionsOf themeOpts)
                 (q_posts (q_data result)) st"
  let ?h = "heap (lr_state ?loop)"
  let ?ids = "infiniteScroll d (iScrollEnabled ?opts) (map ?h (q_posts (q_data result)))"
  let ?T = "createTaxonomyPages d ?opts ?h (filter hasPosts (q_tags (q_data result))) (tagIds ?ids)
              TagTemplate (q_posts (q_data result))"
  let ?A = "createTaxonomyPages d ?opts ?h (filter hasPosts (q_authors (q_data result)))
              (authorIds ?ids) AuthorTemplate (q_posts (q_data result))"
  have eq: "created (createPages d themeOpts result st) =
          createOrdinaryPages d ?opts (q_pages (q_data result)) PageTemplate @
          fst (lr_emitted ?loop) @
          fst (createCollection d ?opts ?h (lr_posts ?loop) (q_tags (q_data result)) None) @
          fst (andThen ?T ?A)"
    using assms
    by (simp add: createPages_def Let_def andThen_def collections_forEach_total
          createCollection_total)
  have "\<forall>r\<in>set (fst (andThen ?T ?A)). component r = TagTemplate \<or> component r = AuthorTemplate"
    by (auto simp: andThen_def split: option.splits dest: createTaxonomyPages_component)
  with eq show ?thesis
    unfolding createPages_final[OF assms] by blast
qed

lemma createPages_post_routes:
  assumes "q_errors result = None"
    and "\<forall>c\<in>set (collectionsOf themeOpts). readsContentOnly (selectorOf c)"
  shows "filter (\<lambda>r. component r = PostTemplate) (created (createPages d themeOpts result st)) =
         concat (map (\<lambda>call. fst (createPostPages d (createOptionsOf themeOpts (q_data result))
                                     (heap (final (createPages d themeOpts result st)))
                                     (snd call) (q_tags (q_data result)) PostTemplate ''''))
                   (calls (createPages d themeOpts result st)))"
proof -
  let ?opts = "createOptionsOf themeOpts (q_data result)"
  let ?loop = "collections_forEach d ?opts (q_tags (q_data result)) (collectionsOf themeOpts)
                 (q_posts (q_data result)) st"
  from createPages_created[OF assms(1), of d themeOpts st]
  obtain tx where c: "created (createPages d themeOpts result st) =
             createOrdinaryPages d ?opts (q_pages (q_data result)) PageTemplate @
             fst (lr_emitted ?loop) @
             fst (createCollection d ?opts (heap (final (createPages d themeOpts result st)))
                    (lr_posts ?loop) (q_tags (q_data result)) None) @ tx"
    and tx: "\<forall>r\<in>set tx. component r = TagTemplate \<or> component r = AuthorTemplate"
    by blast
  have 1: "filter (\<lambda>r. component r = PostTemplate)
             (createOrdinaryPages d ?opts (q_pages (q_data result)) PageTemplate) = []"
    by (auto simp: filter_empty_conv dest: createOrdinaryPages_component)
  have 2: "filter (\<lambda>r. component r = PostTemplate) tx = []"
    using tx by (auto simp: filter_empty_conv)
  have 3: "filter (\<lambda>r. component r = PostTemplate) (fst (lr_emitted ?loop)) =
           concat (map (\<lambda>call. fst (createPostPages d ?opts (heap (lr_state ?loop))
                                      (snd call) (q_tags (q_data result)) PostTemplate ''''))
                    (lr_calls ?loop))"
    unfolding collections_forEach_emitted[OF assms(2)]
    by (simp add: filter_concat o_def createCollection_post_routes)
  show ?thesis
    unfolding c
    by (simp add: 1 2 3 createCollection_post_routes createPages_calls[OF assms(1)]
          createPages_final[OF assms(1)])
qed

lemma createIndexPage_default_path:
  "r \<in> set (createIndexPage d opts ps ids tmpl None) \<Longrightarrow> indexCollectionPath r = Some ''/''"
  by (auto simp: createIndexPage_def Let_def indexCollectionPath_def dest: paginate_component)

text \<open>
  Claim C2, as the code has it. Let the fetch succeed, let every configured selector read only the content of
  a post, and let \<open>a\<close> be a post of the fetched list. The calls of \<^verbatim>\<open>createCollection\<close>
  are numbered from 0: call \<open>k\<close> is the one of the \<open>k\<close>-th configured collection, and the last
  call, number \<open>length cs\<close>, is the one of the default collection.

  \<^item> If collection \<open>i\<close> is the earliest configured collection whose selector accepts the
    post (whatever later collections would say), the post is in the post list of call \<open>i\<close>,
    whose path is the path of that collection, and in the post list of no other call; it
    ends the run with that path as its \<^verbatim>\<open>collectionPath\<close>.
  \<^item> If no configured selector accepts the post, it is in the post list of the default
    call and of no other; the default call is made without a path, so that its index pages
    carry the collection path \<^verbatim>\<open>/\<close>, and the post has been stamped \<^verbatim>\<open>/\<close> by each
    configured collection that passed over it.
  \<^item> The post routes of the run are, call after call, the routes \<^verbatim>\<open>createPostPages\<close>
    builds from the post list of the call: a post has post routes only in the call it is
    in.
\<close>

theorem first_match_wins:
  assumes "q_errors result = None"
    and "\<forall>c\<in>set (collectionsOf themeOpts). readsContentOnly (selectorOf c)"
    and "a \<in> set (q_posts (q_data result))"
    and "cs = collectionsOf themeOpts"
    and "out = createPages d themeOpts result st"
  shows "(i < length cs \<and> selectorOf (cs ! i) (heap st a) \<and>
            (\<forall>j<i. \<not> selectorOf (cs ! j) (heap st a)) \<longrightarrow>
            fst (calls out ! i) = Some (c_path (cs ! i)) \<and>
            a \<in> set (snd (calls out ! i)) \<and>
            (\<forall>k<length (calls out). k \<noteq> i \<longrightarrow> a \<notin> set (snd (calls out ! k))) \<and>
            collectionPath (heap (final out) a) = Some (c_path (cs ! i))) \<and>
         ((\<forall>c\<in>set cs. \<not> selectorOf c (heap st a)) \<longrightarrow>
            fst (calls out ! length cs) = None \<and>
            a \<in> set (snd (calls out ! length cs)) \<and>
            (\<forall>k<length cs. a \<notin> set (snd (calls out ! k))) \<and>
            (\<forall>r\<in>set (createIndexPage d (createOptionsOf themeOpts (q_data result))
                          (snd (calls out ! length cs)) ids IndexTemplate (fst (calls out ! length cs))).
               indexCollectionPath r = Some ''/'') \<and>
            (cs \<noteq> [] \<longrightarrow> collectionPath (heap (final out) a) = Some ''/'')) \<and>
         length (calls out) = length cs + 1 \<and>
         filter (\<lambda>r. component r = PostTemplate) (created out) =
           concat (map (\<lambda>call. fst (createPostPages d (createOptionsOf themeOpts (q_data result))
                                       (heap (final out)) (snd call) (q_tags (q_data result))
                                       PostTemplate ''''))
                     (calls out))"
proof -
  note nth = createPages_calls_nth[OF assms(1,2), where d=d and st=st, folded assms(4,5)]
  have len: "length (calls out) = length cs + 1" by (rule nth(1))
  have at: "snd (calls out ! k) = filter (\<lambda>a. firstMatch cs (heap st a) = Some k)
                                    (q_posts (q_data result))"
           "fst (calls out ! k) = Some (c_path (cs ! k))" if "k < length cs" for k
    using nth(2)[OF that] by simp_all
  have last: "snd (calls out ! length cs) = filter (\<lambda>a. firstMatch cs (heap st a) = None)
                                              (q_posts (q_data result))"
             "fst (calls out ! length cs) = None"
    using nth(3) by simp_all
  have cp: "collectionPath (heap (final out) a) = Some (assignedPath cs (heap st a))" if "cs \<noteq> []"
    using that assms(3)
    by (simp add: assms(4,5) createPages_final[OF assms(1)] collections_forEach_heap[OF assms(2)])
  have matched: "fst (calls out ! i) = Some (c_path (cs ! i)) \<and>
            a \<in> set (snd (calls out ! i)) \<and>
            (\<forall>k<length (calls out). k \<noteq> i \<longrightarrow> a \<notin> set (snd (calls out ! k))) \<and>
            collectionPath (heap (final out) a) = Some (c_path (cs ! i))"
    if m: "i < length cs \<and> selectorOf (cs ! i) (heap st a) \<and>
            (\<forall>j<i. \<not> selectorOf (cs ! j) (heap st a))"
  proof -
    from m have fm: "firstMatch cs (heap st a) = Some i" by (simp add: firstMatch_Some_iff)
    from m have ne: "cs \<noteq> []" by auto
    have other: "a \<notin> set (snd (calls out ! k))" if "k < length (calls out)" "k \<noteq> i" for k
    proof (cases "k < length cs")
      case True
      with fm that show ?thesis by (simp add: at)
    next
      case False
      with that len have "k = length cs" by simp
      with fm show ?thesis by (simp add: last)
    qed
    from m fm assms(3) have "a \<in> set (snd (calls out ! i))" by (simp add: at)
    moreover from m have "fst (calls out ! i) = Some (c_path (cs ! i))" by (simp add: at)
    moreover from fm have "collectionPath (heap (final out) a) = Some (c_path (cs ! i))"
      by (simp add: cp[OF ne] assignedPath_firstMatch)
    ultimately show ?thesis using other by blast
  qed
  have unmatched: "fst (calls out ! length cs) = None \<and>
            a \<in> set (snd (calls out ! length cs)) \<and>
            (\<forall>k<length cs. a \<notin> set (snd (calls out ! k))) \<and>
            (\<forall>r\<in>set (createIndexPage d (createOptionsOf themeOpts (q_data result))
                          (snd (calls out ! length cs)) ids IndexTemplate (fst (calls out ! length cs))).
               indexCollectionPath r = Some ''/'') \<and>
            (cs \<noteq> [] \<longrightarrow> collectionPath (heap (final out) a) = Some ''/'')"
    if n: "\<forall>c\<in>set cs. \<not> selectorOf c (heap st a)"
  proof -
    from n have fm: "firstMatch cs (heap st a) = None" by (simp add: firstMatch_None_iff)
    have "\<forall>k<length cs. a \<notin> set (snd (calls out ! k))"
      using fm by (simp add: at)
    moreover from fm assms(3) have "a \<in> set (snd (calls out ! length cs))" by (simp add: last)
    moreover have "cs \<noteq> [] \<longrightarrow> collectionPath (heap (final out) a) = Some ''/''"
      using fm cp by (simp add: assignedPath_firstMatch)
    moreover have "\<forall>r\<in>set (createIndexPage d (createOptionsOf themeOpts (q_data result))
                          (snd (calls out ! length cs)) ids IndexTemplate (fst (calls out ! length cs))).
               indexCollectionPath r = Some ''/''"
      unfolding last(2) using createIndexPage_default_path by blast
    ultimately show ?thesis using last(2) by blast
  qed
  have routes: "filter (\<lambda>r. component r = PostTemplate) (created out) =
           concat (map (\<lambda>call. fst (createPostPages d (createOptionsOf themeOpts (q_data result))
                                       (heap (final out)) (snd call) (q_tags (q_data result))
                                       PostTemplate ''''))
                     (calls out))"
    unfolding assms(5) by (rule createPages_post_routes[OF assms(1,2)])
  from matched unmatched len routes show ?thesis by blast
qed

text \<open>
  Two posts and two collections: \<^verbatim>\<open>/features/\<close> selects the primary tag \<open>feature\<close>,
  \<^verbatim>\<open>/b/\<close> selects the slug \<open>b\<close>. Post 1 satisfies both selectors and lands in
  \<^verbatim>\<open>/features/\<close> only; post 0 satisfies neither and lands in the default collection.
\<close>

theorem first_match_wins_witness:
  "selectorOf \<lparr>c_path = ''/b/'', c_selector = Some (\<lambda>node. slug node = ''b'')\<rparr>
     (heap (example_state [example_post ''1'' ''a'' None,
                           example_post ''2'' ''b'' (Some ''feature'')]) 1) \<and>
   fst (calls (createPages example_deps
     (example_options [\<lparr>c_path = ''/features/'',
                        c_selector = Some (\<lambda>node. primary_tag node = Some ''feature'')\<rparr>,
                       \<lparr>c_path = ''/b/'', c_selector = Some (\<lambda>node. slug node = ''b'')\<rparr>])
     (example_result [0, 1] [] 3)
     (example_state [example_post ''1'' ''a'' None,
                     example_post ''2'' ''b'' (Some ''feature'')])) ! 0) = Some ''/features/'' \<and>
   1 \<in> set (snd (calls (createPages example_deps
     (example_options [\<lparr>c_path = ''/features/'',
                        c_selector = Some (\<lambda>node. primary_tag node = Some ''feature'')\<rparr>,
                       \<lparr>c_path = ''/b/'', c_selector = Some (\<lambda>node. slug node = ''b'')\<rparr>])
     (example_result [0, 1] [] 3)
     (example_state [example_post ''1'' ''a'' None,
                     example_post ''2'' ''b'' (Some ''feature'')])) ! 0)) \<and>
   1 \<notin> set (snd (calls (createPages example_deps
     (example_options [\<lparr>c_path = ''/features/'',
                        c_selector = Some (\<lambda>node. primary_tag node = Some ''feature'')\<rparr>,
                       \<lparr>c_path = ''/b/'', c_selector = Some (\<lambda>node. slug node = ''b'')\<rparr>])
     (example_result [0, 1] [] 3)
     (example_state [example_post ''1'' ''a'' None,
                     example_post ''2'' ''b'' (Some ''feature'')])) ! 1)) \<and>
   1 \<notin> set (snd (calls (createPages example_deps
     (example_options [\<lparr>c_path = ''/features/'',
                        c_selector = Some (\<lambda>node. primary_tag node = Some ''feature'')\<rparr>,
                       \<lparr>c_path = ''/b/'', c_selector = Some (\<lambda>node. slug node = ''b'')\<rparr>])
     (example_result [0, 1] [] 3)
     (example_state [example_post ''1'' ''a'' None,
                     example_post ''2'' ''b'' (Some ''feature'')])) ! 2)) \<and>
   collectionPath (heap (final (createPages example_deps
     (example_options [\<lparr>c_path = ''/features/'',
                        c_selector = Some (\<lambda>node. primary_tag node = Some ''feature'')\<rparr>,
                       \<lparr>c_path = ''/b/'', c_selector = Some (\<lambda>node. slug node = ''b'')\<rparr>])
     (example_result [0, 1] [] 3)
     (example_state [example_post ''1'' ''a'' None,
                     example_post ''2'' ''b'' (Some ''feature'')]))) 1) = Some ''/features/'' \<and>
   0 \<in> set (snd (calls (createPages example_deps
     (example_options [\<lparr>c_path = ''/features/'',
                        c_selector = Some (\<lambda>node. primary_tag node = Some ''feature'')\<rparr>,
                       \<lparr>c_path = ''/b/'', c_selector = Some (\<lambda>node. slug node = ''b'')\<rparr>])
     (example_result [0, 1] [] 3)
     (example_state [example_post ''1'' ''a'' None,
                     example_post ''2'' ''b'' (Some ''feature'')])) ! 2)) \<and>
   collectionPath (heap (final (createPages example_deps
     (example_options [\<lparr>c_path = ''/features/'',
                        c_selector = Some (\<lambda>node. primary_tag node = Some ''feature'')\<rparr>,
                       \<lparr>c_path = ''/b/'', c_selector = Some (\<lambda>node. slug node = ''b'')\<rparr>])
     (example_result [0, 1] [] 3)
     (example_state [example_post ''1'' ''a'' None,
                     example_post ''2'' ''b'' (Some ''feature'')]))) 0) = Some ''/''"
proof -
  let ?c1 = "\<lparr>c_path = ''/features/'',
              c_selector = Some (\<lambda>node. primary_tag node = Some ''feature'')\<rparr>"
  let ?c2 = "\<lparr>c_path = ''/b/'', c_selector = Some (\<lambda>node. slug node = ''b'')\<rparr>"
  let ?st = "example_state [example_post ''1'' ''a'' None,
                            example_post ''2'' ''b'' (Some ''feature'')]"
  let ?res = "example_result [0, 1] [] 3"
  let ?out = "createPages example_deps (example_options [?c1, ?c2]) ?res ?st"
  have ok: "q_errors ?res = None" by (simp add: example_result_def)
  have cs: "[?c1, ?c2] = collectionsOf (example_options [?c1, ?c2])"
    by (simp add: collectionsOf_def example_options_def)
  have pure: "\<forall>c\<in>set (collectionsOf (example_options [?c1, ?c2])). readsContentOnly (selectorOf c)"
    unfolding cs[symmetric] by (simp add: selectorOf_def readsContentOnly_def)
  have in1: "1 \<in> set (q_posts (q_data ?res))" and in0: "0 \<in> set (q_posts (q_data ?res))"
    by (simp_all add: example_result_def)
  have both: "selectorOf ?c2 (heap ?st 1)"
    by (simp add: selectorOf_def example_state_def example_post_def)
  have earliest: "0 < length [?c1, ?c2] \<and> selectorOf ([?c1, ?c2] ! 0) (heap ?st 1) \<and>
                  (\<forall>j<0. \<not> selectorOf ([?c1, ?c2] ! j) (heap ?st 1))"
    by (simp add: selectorOf_def example_state_def example_post_def)
  have nomatch: "\<forall>c\<in>set [?c1, ?c2]. \<not> selectorOf c (heap ?st 0)"
    by (simp add: selectorOf_def example_state_def example_post_def)
  note one = first_match_wins[OF ok pure in1 cs refl, where i=0 and d=example_deps and st="?st"]
  note zero = first_match_wins[OF ok pure in0 cs refl, where i=0 and d=example_deps and st="?st"]
  note m = one[THEN conjunct1, THEN mp, OF earliest]
  note n = zero[THEN conjunct2, THEN conjunct1, THEN mp, OF nomatch]
  note len = one[THEN conjunct2, THEN conjunct2, THEN conjunct1]
  from m have a: "fst (calls ?out ! 0) = Some ''/features/''" by simp
  from m have b: "1 \<in> set (snd (calls ?out ! 0))" by blast
  from m have c: "\<forall>k<length (calls ?out). k \<noteq> 0 \<longrightarrow> 1 \<notin> set (snd (calls ?out ! k))"
    by blast
  from m have d: "collectionPath (heap (final ?out) 1) = Some ''/features/''" by simp
  from len have l: "length (calls ?out) = 3" by simp
  have c1: "1 \<notin> set (snd (calls ?out ! 1))"
    using c[THEN spec, of 1] l by simp
  have c2: "1 \<notin> set (snd (calls ?out ! 2))"
    using c[THEN spec, of 2] l by simp
  have two: "length [?c1, ?c2] = 2" by simp
  from n have e: "0 \<in> set (snd (calls ?out ! 2))"
    unfolding two by blast
  from n have "[?c1, ?c2] \<noteq> [] \<longrightarrow> collectionPath (heap (final ?out) 0) = Some ''/''"
    by blast
  then have f: "collectionPath (heap (final ?out) 0) = Some ''/''" by simp
  show ?thesis by (intro conjI both a b c1 c2 d e f)
qed

text \<open>
  The claim as stated fails for a selector that reads the stamp. The collection
  \<^verbatim>\<open>/a/\<close> accepts a node as long as it has no \<^verbatim>\<open>collectionPath\<close>, the collection
  \<^verbatim>\<open>/b/\<close> accepts the slug \<open>p\<close>; the post, as fetched, satisfies both. The first
  collection takes it and stamps it; the filter for the residual posts then sees the stamp
  and keeps the post as well, so that the second collection takes it too: the post is in
  the post lists of both collections, and it ends the run with the path of the later one.
\<close>

theorem stamp_reading_selector_matches_twice:
  "selectorOf \<lparr>c_path = ''/a/'', c_selector = Some (\<lambda>node. collectionPath node = None)\<rparr>
     (heap (example_state [example_post ''1'' ''p'' None]) 0) \<and>
   selectorOf \<lparr>c_path = ''/b/'', c_selector = Some (\<lambda>node. slug node = ''p'')\<rparr>
     (heap (example_state [example_post ''1'' ''p'' None]) 0) \<and>
   calls (createPages example_deps
     (example_options [\<lparr>c_path = ''/a/'', c_selector = Some (\<lambda>node. collectionPath node = None)\<rparr>,
                       \<lparr>c_path = ''/b/'', c_selector = Some (\<lambda>node. slug node = ''p'')\<rparr>])
     (example_result [0] [] 3)
     (example_state [example_post ''1'' ''p'' None])) =
       [(Some ''/a/'', [0]), (Some ''/b/'', [0]), (None, [])] \<and>
   collectionPath (heap (final (createPages example_deps
     (example_options [\<lparr>c_path = ''/a/'', c_selector = Some (\<lambda>node. collectionPath node = None)\<rparr>,
                       \<lparr>c_path = ''/b/'', c_selector = Some (\<lambda>node. slug node = ''p'')\<rparr>])
     (example_result [0] [] 3)
     (example_state [example_post ''1'' ''p'' None]))) 0) = Some ''/b/''"
proof -
  let ?cfg = "example_options
                [\<lparr>c_path = ''/a/'', c_selector = Some (\<lambda>node. collectionPath node = None)\<rparr>,
                 \<lparr>c_path = ''/b/'', c_selector = Some (\<lambda>node. slug node = ''p'')\<rparr>]"
  let ?res = "example_result [0] [] 3"
  let ?st = "example_state [example_post ''1'' ''p'' None]"
  have ok: "q_errors ?res = None" by (simp add: example_result_def)
  have s1: "selectorOf \<lparr>c_path = ''/a/'', c_selector = Some (\<lambda>node. collectionPath node = None)\<rparr>
              (heap ?st 0)"
    and s2: "selectorOf \<lparr>c_path = ''/b/'', c_selector = Some (\<lambda>node. slug node = ''p'')\<rparr>
              (heap ?st 0)"
    by (simp_all add: selectorOf_def example_state_def example_post_def)
  have c: "calls (createPages example_deps ?cfg ?res ?st) =
             [(Some ''/a/'', [0]), (Some ''/b/'', [0]), (None, [])]"
    unfolding createPages_calls[OF ok]
    by (simp add: example_result_def example_options_def collectionsOf_def example_state_def
          Let_def getCollection_def set_collectionPath_def createCollection_total
          example_post_def)
  have f: "collectionPath (heap (final (createPages example_deps ?cfg ?res ?st)) 0) = Some ''/b/''"
    unfolding createPages_final[OF ok]
    by (simp add: example_result_def example_options_def collectionsOf_def example_state_def
          Let_def getCollection_def set_collectionPath_def createCollection_total
          example_post_def)
  show ?thesis by (intro conjI s1 s2 c f)
qed

section \<open>Writes to collectionPath\<close>

lemma createPages_writes:
  assumes "q_errors result = None"
    and "\<forall>c\<in>set (collectionsOf themeOpts). readsContentOnly (selectorOf c)"
    and "distinct (q_posts (q_data result))"
  shows "writesTo a (writes (final (createPages d themeOpts result st))) =
           writesTo a (writes st) @
             (if a \<in> set (q_posts (q_data result))
              then (case firstMatch (collectionsOf themeOpts) (heap st a) of
                      Some i \<Rightarrow> replicate i ''/'' @ [c_path (collectionsOf themeOpts ! i)]
                    | None \<Rightarrow> replicate (length (collectionsOf themeOpts)) ''/'')
              else [])"
  unfolding createPages_final[OF assms(1)]
  by (rule collections_forEach_writes[OF assms(2,3)])

text \<open>
  Claim C3, as the code has it. Let the fetch succeed, let the fetched post list have no
  repetition, let every configured selector read only the content of a post, and let no
  assignment have happened before the run. \<^verbatim>\<open>getCollection\<close> assigns the
  \<^verbatim>\<open>collectionPath\<close> of every post it is given, once: the collection's path to the
  posts its selector accepts, \<^verbatim>\<open>/\<close> to the others, which go on to the next collection.
  So a post whose earliest matching collection is number \<open>i\<close> (counting from 0) is assigned
  \<open>i + 1\<close> times in a run: \<^verbatim>\<open>/\<close> by each of the \<open>i\<close> collections before, then the path
  of collection \<open>i\<close>, and never again after that. A post that no collection matches is
  assigned \<^verbatim>\<open>/\<close> once by every configured collection.
\<close>

theorem collectionPath_assignments:
  assumes "q_errors result = None"
    and "\<forall>c\<in>set (collectionsOf themeOpts). readsContentOnly (selectorOf c)"
    and "distinct (q_posts (q_data result))"
    and "a \<in> set (q_posts (q_data result))"
    and "writes st = []"
    and "cs = collectionsOf themeOpts"
  shows "(i < length cs \<and> selectorOf (cs ! i) (heap st a) \<and>
            (\<forall>j<i. \<not> selectorOf (cs ! j) (heap st a)) \<longrightarrow>
            writesTo a (writes (final (createPages d themeOpts result st))) =
              replicate i ''/'' @ [c_path (cs ! i)]) \<and>
         ((\<forall>c\<in>set cs. \<not> selectorOf c (heap st a)) \<longrightarrow>
            writesTo a (writes (final (createPages d themeOpts result st))) =
              replicate (length cs) ''/'')"
proof (intro conjI impI)
  note w = createPages_writes[OF assms(1,2,3), of a d st, folded assms(6)]
  have none: "writesTo a (writes st) = []" by (simp add: assms(5) writesTo_def)
  {
    assume "i < length cs \<and> selectorOf (cs ! i) (heap st a) \<and>
            (\<forall>j<i. \<not> selectorOf (cs ! j) (heap st a))"
    then have "firstMatch cs (heap st a) = Some i" by (simp add: firstMatch_Some_iff)
    then show "writesTo a (writes (final (createPages d themeOpts result st))) =
              replicate i ''/'' @ [c_path (cs ! i)]"
      using assms(4) by (simp add: w none)
  }
  {
    assume "\<forall>c\<in>set cs. \<not> selectorOf c (heap st a)"
    then have "firstMatch cs (heap st a) = None" by (simp add: firstMatch_None_iff)
    then show "writesTo a (writes (final (createPages d themeOpts result st))) =
              replicate (length cs) ''/''"
      using assms(4) by (simp add: w none)
  }
qed

text \<open>
  Two collections, \<^verbatim>\<open>/a/\<close> for the slug \<open>x\<close> and \<^verbatim>\<open>/b/\<close> for the slug \<open>y\<close>, and one post
  with slug \<open>y\<close>: the first collection passes over it and assigns \<^verbatim>\<open>/\<close>, the second
  assigns \<^verbatim>\<open>/b/\<close>.
\<close>

theorem collectionPath_assignments_witness:
  "writesTo 0 (writes (final (createPages example_deps
      (example_options [\<lparr>c_path = ''/a/'', c_selector = Some (\<lambda>node. slug node = ''x'')\<rparr>,
                        \<lparr>c_path = ''/b/'', c_selector = Some (\<lambda>node. slug node = ''y'')\<rparr>])
      (example_result [0] [] 3)
      (example_state [example_post ''1'' ''y'' None])))) = replicate 1 ''/'' @ [''/b/'']"
proof -
  let ?c1 = "\<lparr>c_path = ''/a/'', c_selector = Some (\<lambda>node. slug node = ''x'')\<rparr>"
  let ?c2 = "\<lparr>c_path = ''/b/'', c_selector = Some (\<lambda>node. slug node = ''y'')\<rparr>"
  let ?st = "example_state [example_post ''1'' ''y'' None]"
  let ?res = "example_result [0] [] 3"
  have ok: "q_errors ?res = None" by (simp add: example_result_def)
  have cs: "[?c1, ?c2] = collectionsOf (example_options [?c1, ?c2])"
    by (simp add: collectionsOf_def example_options_def)
  have pure: "\<forall>c\<in>set (collectionsOf (example_options [?c1, ?c2])). readsContentOnly (selectorOf c)"
    unfolding cs[symmetric] by (simp add: selectorOf_def readsContentOnly_def)
  have dist: "distinct (q_posts (q_data ?res))" and mem: "0 \<in> set (q_posts (q_data ?res))"
    by (simp_all add: example_result_def)
  have fresh: "writes ?st = []" by (simp add: example_state_def)
  have second: "1 < length [?c1, ?c2] \<and> selectorOf ([?c1, ?c2] ! 1) (heap ?st 0) \<and>
                (\<forall>j<1. \<not> selectorOf ([?c1, ?c2] ! j) (heap ?st 0))"
    by (simp add: selectorOf_def example_state_def example_post_def)
  note t = collectionPath_assignments[OF ok pure dist mem fresh cs,
             where i=1 and d=example_deps, THEN conjunct1, THEN mp, OF second]
  then show ?thesis by simp
qed

text \<open>
  The claim as stated fails on the same run: the post is assigned twice, and the second
  value differs from the first.
\<close>

theorem collectionPath_assigned_twice:
  "writesTo 0 (writes (final (createPages example_deps
      (example_options [\<lparr>c_path = ''/a/'', c_selector = Some (\<lambda>node. slug node = ''x'')\<rparr>,
                        \<lparr>c_path = ''/b/'', c_selector = Some (\<lambda>node. slug node = ''y'')\<rparr>])
      (example_result [0] [] 3)
      (example_state [example_post ''1'' ''y'' None])))) = [''/'', ''/b/'']"
  by (simp add: createPages_def example_result_def example_options_def collectionsOf_def
        createOptionsOf_def example_state_def example_post_def Let_def getCollection_def
        set_collectionPath_def writesTo_def createCollection_total)

section \<open>Running the planner twice\<close>

lemma collections_forEach_posts_subset:
  "set (lr_posts (collections_forEach d opts tags cs cd st)) \<subseteq> set cd"
proof (induction cs arbitrary: cd st)
  case Nil
  show ?case by simp
next
  case (Cons c cs)
  have "set (lr_posts (collections_forEach d opts tags cs
                (residual (fst (getCollection st cd (c_path c) (c_selector c))))
                (snd (getCollection st cd (c_path c) (c_selector c)))))
        \<subseteq> set (residual (fst (getCollection st cd (c_path c) (c_selector c))))"
    by (rule Cons.IH)
  also have "\<dots> \<subseteq> set cd" by (rule getCollection_subsets)
  finally show ?case
    unfolding collections_forEach_Cons Let_def by simp
qed

text \<open>
  Claim C10, as the code has it. The first run stamps the post nodes; the second run starts from the nodes as
  the first run left them, with the same configuration and the same fetch result. When
  every configured selector reads only the content of a post, the second run passes the
  same routes to the sink, in the same order, with the same paths, components and
  contexts, and ends the same way (it throws the same error, or none). It also makes the
  same calls of \<^verbatim>\<open>createCollection\<close> and leaves every fetched post as the first run left
  it.
\<close>

theorem rerun_creates_same_routes:
  assumes "\<forall>c\<in>set (collectionsOf themeOpts). readsContentOnly (selectorOf c)"
  shows "created (createPages d themeOpts result (final (createPages d themeOpts result st))) =
           created (createPages d themeOpts result st) \<and>
         thrown (createPages d themeOpts result (final (createPages d themeOpts result st))) =
           thrown (createPages d themeOpts result st) \<and>
         calls (createPages d themeOpts result (final (createPages d themeOpts result st))) =
           calls (createPages d themeOpts result st) \<and>
         (\<forall>a\<in>set (q_posts (q_data result)).
            heap (final (createPages d themeOpts result (final (createPages d themeOpts result st)))) a =
            heap (final (createPages d themeOpts result st)) a)"
proof (cases "q_errors result")
  case (Some es)
  then show ?thesis by (simp add: createPages_def)
next
  case None
  let ?dat = "q_data result"
  let ?opts = "createOptionsOf themeOpts ?dat"
  define r where "r = collections_forEach d ?opts (q_tags ?dat) (collectionsOf themeOpts)
                        (q_posts ?dat) st"
  define r' where "r' = collections_forEach d ?opts (q_tags ?dat) (collectionsOf themeOpts)
                        (q_posts ?dat) (lr_state r)"
  have fin: "final (createPages d themeOpts result st) = lr_state r"
    unfolding r_def by (rule createPages_final[OF None])
  from collections_forEach_rerun[OF assms r_def r'_def]
  have p: "lr_posts r' = lr_posts r" and c: "lr_calls r' = lr_calls r"
    and e: "lr_emitted r' = lr_emitted r"
    and h: "\<forall>a\<in>set (q_posts ?dat). heap (lr_state r') a = heap (lr_state r) a"
    by blast+
  have sub: "set (lr_posts r) \<subseteq> set (q_posts ?dat)"
    unfolding r_def by (rule collections_forEach_posts_subset)
  have dflt: "createCollection d ?opts (heap (lr_state r')) (lr_posts r) (q_tags ?dat) None =
              createCollection d ?opts (heap (lr_state r)) (lr_posts r) (q_tags ?dat) None"
    using h sub by (intro createCollection_cong) auto
  have nodes: "map (heap (lr_state r')) (q_posts ?dat) = map (heap (lr_state r)) (q_posts ?dat)"
    using h by simp
  have tx: "createTaxonomyPages d ?opts (heap (lr_state r')) taxonomy postIds tmpl (q_posts ?dat) =
            createTaxonomyPages d ?opts (heap (lr_state r)) taxonomy postIds tmpl (q_posts ?dat)"
    for taxonomy postIds tmpl
    using h by (intro createTaxonomyPages_cong) simp
  have one: "createPages d themeOpts result st =
          (let h = heap (lr_state r);
               ids = infiniteScroll d (iScrollEnabled ?opts) (map h (q_posts ?dat));
               em = andThen (createOrdinaryPages d ?opts (q_pages ?dat) PageTemplate, None)
                      (andThen (lr_emitted r)
                         (andThen (createCollection d ?opts h (lr_posts r) (q_tags ?dat) None)
                            (andThen
                               (createTaxonomyPages d ?opts h (filter hasPosts (q_tags ?dat))
                                  (tagIds ids) TagTemplate (q_posts ?dat))
                               (createTaxonomyPages d ?opts h (filter hasPosts (q_authors ?dat))
                                  (authorIds ids) AuthorTemplate (q_posts ?dat)))))
           in \<lparr>created = fst em, thrown = snd em,
               calls = lr_calls r @ (if snd (lr_emitted r) = None then [(None, lr_posts r)] else []),
               final = lr_state r\<rparr>)"
    unfolding r_def using None by (simp add: createPages_def Let_def)
  have two: "createPages d themeOpts result (lr_state r) =
          (let h = heap (lr_state r');
               ids = infiniteScroll d (iScrollEnabled ?opts) (map h (q_posts ?dat));
               em = andThen (createOrdinaryPages d ?opts (q_pages ?dat) PageTemplate, None)
                      (andThen (lr_emitted r')
                         (andThen (createCollection d ?opts h (lr_posts r') (q_tags ?dat) None)
                            (andThen
                               (createTaxonomyPages d ?opts h (filter hasPosts (q_tags ?dat))
                                  (tagIds ids) TagTemplate (q_posts ?dat))
                               (createTaxonomyPages d ?opts h (filter hasPosts (q_authors ?dat))
                                  (authorIds ids) AuthorTemplate (q_posts ?dat)))))
           in \<lparr>created = fst em, thrown = snd em,
               calls = lr_calls r' @ (if snd (lr_emitted r') = None then [(None, lr_posts r')] else []),
               final = lr_state r'\<rparr>)"
    unfolding r'_def using None by (simp add: createPages_def Let_def)
  show ?thesis
    unfolding fin unfolding two one Let_def p c e dflt nodes tx
    using h by simp
qed

text \<open>
  The run of the five posts with the collection \<^verbatim>\<open>/features/\<close>, twice.
\<close>

theorem rerun_creates_same_routes_witness:
  "created (createPages example_deps
       (example_options [\<lparr>c_path = ''/features/'',
                          c_selector = Some (\<lambda>node. primary_tag node = Some ''feature'')\<rparr>])
       (example_result [0, 1, 2, 3, 4] [] 3)
       (final (createPages example_deps
          (example_options [\<lparr>c_path = ''/features/'',
                             c_selector = Some (\<lambda>node. primary_tag node = Some ''feature'')\<rparr>])
          (example_result [0, 1, 2, 3, 4] [] 3)
          (example_state [example_post ''1'' ''a'' None, example_post ''2'' ''b'' (Some ''feature''),
                          example_post ''3'' ''c'' None, example_post ''4'' ''d'' (Some ''feature''),
                          example_post ''5'' ''e'' None])))) =
   created (createPages example_deps
       (example_options [\<lparr>c_path = ''/features/'',
                          c_selector = Some (\<lambda>node. primary_tag node = Some ''feature'')\<rparr>])
       (example_result [0, 1, 2, 3, 4] [] 3)
       (example_state [example_post ''1'' ''a'' None, example_post ''2'' ''b'' (Some ''feature''),
                       example_post ''3'' ''c'' None, example_post ''4'' ''d'' (Some ''feature''),
                       example_post ''5'' ''e'' None]))"
proof -
  let ?cs = "[\<lparr>c_path = ''/features/'',
              c_selector = Some (\<lambda>node. primary_tag node = Some ''feature'')\<rparr>]"
  have cs: "collectionsOf (example_options ?cs) = ?cs"
    by (simp add: collectionsOf_def example_options_def)
  have pure: "\<forall>c\<in>set (collectionsOf (example_options ?cs)). readsContentOnly (selectorOf c)"
    by (simp add: cs selectorOf_def readsContentOnly_def)
  from rerun_creates_same_routes[OF pure] show ?thesis by blast
qed

lemma createPages_post_route_count:
  assumes "q_errors result = None"
  shows "length (filter (\<lambda>r. component r = PostTemplate) (created (createPages d themeOpts result st))) =
         length (filter (\<lambda>r. component r = PostTemplate)
                   (fst (lr_emitted (collections_forEach d (createOptionsOf themeOpts (q_data result))
                       (q_tags (q_data result)) (collectionsOf themeOpts)
                       (q_posts (q_data result)) st)))) +
         length (lr_posts (collections_forEach d (createOptionsOf themeOpts (q_data result))
                       (q_tags (q_data result)) (collectionsOf themeOpts)
                       (q_posts (q_data result)) st))"
proof -
  from createPages_created[OF assms, of d themeOpts st]
  obtain tx where c: "created (createPages d themeOpts result st) =
             createOrdinaryPages d (createOptionsOf themeOpts (q_data result))
               (q_pages (q_data result)) PageTemplate @
             fst (lr_emitted (collections_forEach d (createOptionsOf themeOpts (q_data result))
                       (q_tags (q_data result)) (collectionsOf themeOpts)
                       (q_posts (q_data result)) st)) @
             fst (createCollection d (createOptionsOf themeOpts (q_data result))
                    (heap (final (createPages d themeOpts result st)))
                    (lr_posts (collections_forEach d (createOptionsOf themeOpts (q_data result))
                       (q_tags (q_data result)) (collectionsOf themeOpts)
                       (q_posts (q_data result)) st))
                    (q_tags (q_data result)) None) @ tx"
    and tx: "\<forall>r\<in>set tx. component r = TagTemplate \<or> component r = AuthorTemplate"
    by blast
  have 1: "filter (\<lambda>r. component r = PostTemplate)
             (createOrdinaryPages d (createOptionsOf themeOpts (q_data result))
                (q_pages (q_data result)) PageTemplate) = []"
    by (auto simp: filter_empty_conv dest: createOrdinaryPages_component)
  have 2: "filter (\<lambda>r. component r = PostTemplate) tx = []"
    using tx by (auto simp: filter_empty_conv)
  show ?thesis
    unfolding c by (simp add: 1 2 createCollection_post_routes createPostPages_length)
qed

text \<open>
  The claim as stated fails for a selector that reads the stamp. One post, and one
  collection \<^verbatim>\<open>/a/\<close> whose selector accepts a node as long as it has no
  \<^verbatim>\<open>collectionPath\<close>. In the first run the post is accepted, stamped, and then also kept
  among the residual posts, because the second filter sees the stamp: the run creates two
  post routes. The second run finds the post stamped, the selector rejects it, and the run
  creates one post route.
\<close>

theorem rerun_differs_for_stamp_reading_selector:
  "length (filter (\<lambda>r. component r = PostTemplate)
     (created (createPages example_deps
        (example_options [\<lparr>c_path = ''/a/'',
                           c_selector = Some (\<lambda>node. collectionPath node = None)\<rparr>])
        (example_result [0] [] 3)
        (example_state [example_post ''1'' ''p'' None])))) = 2 \<and>
   length (filter (\<lambda>r. component r = PostTemplate)
     (created (createPages example_deps
        (example_options [\<lparr>c_path = ''/a/'',
                           c_selector = Some (\<lambda>node. collectionPath node = None)\<rparr>])
        (example_result [0] [] 3)
        (final (createPages example_deps
           (example_options [\<lparr>c_path = ''/a/'',
                              c_selector = Some (\<lambda>node. collectionPath node = None)\<rparr>])
           (example_result [0] [] 3)
           (example_state [example_post ''1'' ''p'' None])))))) = 1"
proof -
  let ?cfg = "example_options [\<lparr>c_path = ''/a/'',
                                c_selector = Some (\<lambda>node. collectionPath node = None)\<rparr>]"
  let ?res = "example_result [0] [] 3"
  let ?st = "example_state [example_post ''1'' ''p'' None]"
  have ok: "q_errors ?res = None" by (simp add: example_result_def)
  have fin: "heap (final (createPages example_deps ?cfg ?res ?st)) 0 =
               (example_post ''1'' ''p'' None)\<lparr>collectionPath := Some ''/''\<rparr>"
    unfolding createPages_final[OF ok]
    by (simp add: example_result_def example_options_def
          collectionsOf_def example_state_def Let_def getCollection_def
          set_collectionPath_def createCollection_total example_post_def)
  have first: "length (filter (\<lambda>r. component r = PostTemplate)
                 (created (createPages example_deps ?cfg ?res ?st))) = 2"
    unfolding createPages_post_route_count[OF ok]
    by (simp add: example_result_def example_options_def collectionsOf_def example_state_def
          Let_def getCollection_def set_collectionPath_def createCollection_total andThen_def
          createCollection_post_routes createPostPages_length example_post_def)
  have again: "length (filter (\<lambda>r. component r = PostTemplate)
                 (created (createPages example_deps ?cfg ?res s))) = 1"
    if "collectionPath (heap s 0) \<noteq> None" for s
    unfolding createPages_post_route_count[OF ok]
    using that
    by (simp add: example_result_def example_options_def collectionsOf_def
          Let_def getCollection_def set_collectionPath_def createCollection_total andThen_def
          createCollection_post_routes createPostPages_length)
  have second: "length (filter (\<lambda>r. component r = PostTemplate)
                 (created (createPages example_deps ?cfg ?res
                    (final (createPages example_deps ?cfg ?res ?st))))) = 1"
    by (rule again) (simp add: fin)
  show ?thesis by (intro conjI first second)
qed

section \<open>Taxonomy pages\<close>














end
